theory Spec2Isabelle
  imports Complex_Main "HOL-Library.AList" "HOL-Library.Multiset"
begin

section \<open>Python strings\<close>

text \<open>
  A Python \<open>str\<close> is a sequence of Unicode code points; it is modelled as the list of
  the code points' numbers.  String literals of the program are ASCII and are written
  \<open>ascii ''...''\<close>.
\<close>

type_synonym pystr = "nat list"

definition ascii :: "string \<Rightarrow> pystr" where
  "ascii cs = map of_char cs"

text \<open>
  \<open>str.isspace\<close> on one character: the characters on which \<open>str.strip()\<close> and
  \<open>str.split()\<close> (both without argument) act.
\<close>

definition isspace :: "nat \<Rightarrow> bool" where
  "isspace c \<longleftrightarrow>
     (9 \<le> c \<and> c \<le> 13) \<or> (28 \<le> c \<and> c \<le> 32) \<or> c = 133 \<or> c = 160 \<or> c = 5760 \<or>
     (8192 \<le> c \<and> c \<le> 8202) \<or> c = 8232 \<or> c = 8233 \<or> c = 8239 \<or> c = 8287 \<or>
     c = 12288"

text \<open>The line boundaries of \<open>str.splitlines()\<close>.\<close>

definition is_linebreak :: "nat \<Rightarrow> bool" where
  "is_linebreak c \<longleftrightarrow>
     (10 \<le> c \<and> c \<le> 13) \<or> (28 \<le> c \<and> c \<le> 30) \<or> c = 133 \<or> c = 8232 \<or> c = 8233"

text \<open>
  \<open>str.splitlines()\<close>: a scan with the current line as accumulator.  A carriage return
  followed by a line feed is one boundary; a boundary at the very end opens no further
  line.
\<close>

fun splitlines_from :: "pystr \<Rightarrow> pystr \<Rightarrow> pystr list" where
  "splitlines_from cur [] = (if cur = [] then [] else [cur])"
| "splitlines_from cur [c] = (if is_linebreak c then [cur] else [cur @ [c]])"
| "splitlines_from cur (c # d # cs) =
     (if c = 13 \<and> d = 10 then cur # splitlines_from [] cs
      else if is_linebreak c then cur # splitlines_from [] (d # cs)
      else splitlines_from (cur @ [c]) (d # cs))"

definition splitlines :: "pystr \<Rightarrow> pystr list" where
  "splitlines s = splitlines_from [] s"

text \<open>\<open>str.strip()\<close>: whitespace is removed from both ends.\<close>

definition strip :: "pystr \<Rightarrow> pystr" where
  "strip s = rev (dropWhile isspace (rev (dropWhile isspace s)))"

text \<open>
  \<open>str.split()\<close>: the maximal runs of characters that are not whitespace, in order;
  \<open>cur\<close> is the run being read.
\<close>

fun split_from :: "pystr \<Rightarrow> pystr \<Rightarrow> pystr list" where
  "split_from cur [] = (if cur = [] then [] else [cur])"
| "split_from cur (c # cs) =
     (if isspace c then (if cur = [] then split_from [] cs else cur # split_from [] cs)
      else split_from (cur @ [c]) cs)"

definition split :: "pystr \<Rightarrow> pystr list" where
  "split s = split_from [] s"

text \<open>\<open>str.startswith\<close> with one prefix, and with a tuple of prefixes.\<close>

definition startswith :: "pystr \<Rightarrow> pystr \<Rightarrow> bool" where
  "startswith s p \<longleftrightarrow> take (length p) s = p"

definition startswith_any :: "pystr \<Rightarrow> pystr list \<Rightarrow> bool" where
  "startswith_any s ps \<longleftrightarrow> list_ex (startswith s) ps"

section \<open>Dictionaries\<close>

text \<open>
  A \<open>dict\<close> keeps its keys in insertion order: it is an association list; storing
  under a key that is present replaces the value in place, storing under a new key
  appends (\<open>AList.update\<close>).  \<open>dict(pairs)\<close> stores the pairs one after the other.
\<close>

type_synonym ('k, 'v) dict = "('k \<times> 'v) list"

definition dict_of :: "('k \<times> 'v) list \<Rightarrow> ('k, 'v) dict" where
  "dict_of ps = foldl (\<lambda>d kv. AList.update (fst kv) (snd kv) d) [] ps"

section \<open>The parser\<close>

definition TABLE_COLUMNS :: "pystr list" where
  "TABLE_COLUMNS =
     [ascii ''time'', ascii ''uid'', ascii ''pid'', ascii ''usr_pct'', ascii ''system_pct'',
      ascii ''guest_pct'', ascii ''cpu_pct'', ascii ''cpu'', ascii ''minflt_s'',
      ascii ''majflt_s'', ascii ''vsz'', ascii ''rss'', ascii ''mem_pct'', ascii ''kb_rd_s'',
      ascii ''kb_wr_s'', ascii ''kb_ccwr_s'', ascii ''iodelay'']"

type_synonym row = "(pystr, pystr) dict"

text \<open>The prefixes of the lines that hold no data.\<close>

definition markers :: "pystr list" where
  "markers = [ascii ''Linux'', ascii ''#'', ascii ''Average:'']"

text \<open>
  The loop of \<open>parse_pidstat_output\<close> over the lines, with \<open>rows\<close> the list built so
  far; each \<open>continue\<close> is the recursive call that leaves \<open>rows\<close> as it is.
\<close>

fun parse_lines :: "row list \<Rightarrow> pystr list \<Rightarrow> row list" where
  "parse_lines rows [] = rows"
| "parse_lines rows (line # lines) =
     (let stripped = strip line in
      if stripped = [] \<or> startswith_any stripped markers then parse_lines rows lines
      else
        let parts = split stripped in
        if length parts < length TABLE_COLUMNS then parse_lines rows lines
        else parse_lines (rows @ [dict_of (zip TABLE_COLUMNS parts)]) lines)"

definition parse_pidstat_output :: "pystr \<Rightarrow> row list" where
  "parse_pidstat_output stdout = parse_lines [] (splitlines stdout)"

section \<open>Exceptions\<close>

text \<open>
  A function that can raise returns \<open>Inl\<close> of the exception, and \<open>Inr\<close> of its value
  otherwise.  \<open>SystemExit\<close> carries its message.
\<close>

datatype exn = KeyError | ValueError | CalledProcessError | SystemExit pystr

text \<open>\<open>d[k]\<close>, and a list comprehension whose element expression can raise.\<close>

definition getitem :: "('k, 'v) dict \<Rightarrow> 'k \<Rightarrow> exn + 'v" where
  "getitem d k = (case map_of d k of None \<Rightarrow> Inl KeyError | Some v \<Rightarrow> Inr v)"

fun map_exn :: "('a \<Rightarrow> exn + 'b) \<Rightarrow> 'a list \<Rightarrow> exn + 'b list" where
  "map_exn f [] = Inr []"
| "map_exn f (x # xs) =
     (case f x of
        Inl e \<Rightarrow> Inl e
      | Inr y \<Rightarrow> (case map_exn f xs of Inl e \<Rightarrow> Inl e | Inr ys \<Rightarrow> Inr (y # ys)))"

section \<open>Floating-point numbers\<close>

text \<open>
  A Python \<open>float\<close> is an IEEE 754 binary64 number.  \<open>Finite s m e\<close> is the number
  \<open>(-1)\<^sup>s \<sqdot> m \<sqdot> 2\<^sup>e\<close>, with \<open>m < 2\<^sup>5\<^sup>3\<close> and \<open>-1074 \<le> e \<le> 971\<close>, and with
  \<open>2\<^sup>5\<^sup>2 \<le> m\<close> unless \<open>e = -1074\<close> (zero and the subnormal numbers), so that every
  number has one representation.
\<close>

datatype pyfloat = Finite bool nat int | Infinity bool | NaN

definition valid_float :: "pyfloat \<Rightarrow> bool" where
  "valid_float x =
     (case x of
        Finite s m e \<Rightarrow> m < 2 ^ 53 \<and> - 1074 \<le> e \<and> e \<le> 971 \<and> (2 ^ 52 \<le> m \<or> e = - 1074)
      | _ \<Rightarrow> True)"

text \<open>The literal \<open>0.0\<close>.\<close>

definition zero_float :: pyfloat where
  "zero_float = Finite False 0 (- 1074)"

text \<open>The number of binary digits of a natural number (\<open>int.bit_length\<close>).\<close>

fun bit_length :: "nat \<Rightarrow> nat" where
  "bit_length n = (if n = 0 then 0 else Suc (bit_length (n div 2)))"

declare bit_length.simps [simp del]

text \<open>The integer nearest to \<open>num / den\<close>, the even one of two that are equally near.\<close>

definition rne_div :: "nat \<Rightarrow> nat \<Rightarrow> nat" where
  "rne_div num den =
     (let q = num div den; r = num mod den in
      if 2 * r < den then q
      else if den < 2 * r then q + 1
      else if even q then q else q + 1)"

text \<open>
  \<open>\<lfloor>log\<^sub>2 (n / d)\<rfloor>\<close> for positive \<open>n\<close> and \<open>d\<close>: the difference \<open>l\<close> of the bit lengths,
  or one less.
\<close>

definition floor_log2 :: "nat \<Rightarrow> nat \<Rightarrow> int" where
  "floor_log2 n d =
     (let l = int (bit_length n) - int (bit_length d) in
      if 0 \<le> l then (if d * 2 ^ nat l \<le> n then l else l - 1)
      else (if d \<le> n * 2 ^ nat (- l) then l else l - 1))"

text \<open>
  The float nearest to the rational number \<open>(-1)\<^sup>s \<sqdot> n / d\<close> (\<open>0 < d\<close>), ties to the even
  significand, as IEEE 754 rounds every result: the exponent \<open>e\<close> is that of the binade
  of \<open>n / d\<close>, or the least one; a significand rounded up to \<open>2\<^sup>5\<^sup>3\<close> moves to the
  next binade, and a number beyond the largest float becomes an infinity.
\<close>

definition round_to_float :: "bool \<Rightarrow> nat \<Rightarrow> nat \<Rightarrow> pyfloat" where
  "round_to_float s n d =
     (if n = 0 then Finite s 0 (- 1074)
      else
        let e = max (floor_log2 n d - 52) (- 1074);
            m = (if 0 \<le> e then rne_div n (d * 2 ^ nat e) else rne_div (n * 2 ^ nat (- e)) d);
            e' = (if m = 2 ^ 53 then e + 1 else e);
            m' = (if m = 2 ^ 53 then 2 ^ 52 else m)
        in if 971 < e' then Infinity s else Finite s m' e')"

text \<open>
  Addition (\<open>+\<close> and \<open>+=\<close> on floats): the exact sum of the two numbers, rounded.  An
  exact sum of zero is \<open>-0.0\<close> only when both numbers are negative (zeros).
\<close>

definition signed_int :: "bool \<Rightarrow> nat \<Rightarrow> int" where
  "signed_int s m = (if s then - int m else int m)"

fun fadd :: "pyfloat \<Rightarrow> pyfloat \<Rightarrow> pyfloat" where
  "fadd (Finite s m e) (Finite t n f) =
     (let k = min e f;
          c = signed_int s (m * 2 ^ nat (e - k)) + signed_int t (n * 2 ^ nat (f - k))
      in if c = 0 then Finite (s \<and> t) 0 (- 1074)
         else if 0 \<le> k then round_to_float (c < 0) (nat \<bar>c\<bar> * 2 ^ nat k) 1
         else round_to_float (c < 0) (nat \<bar>c\<bar>) (2 ^ nat (- k)))"
| "fadd (Finite s m e) (Infinity t) = Infinity t"
| "fadd (Infinity s) (Finite t n f) = Infinity s"
| "fadd (Infinity s) (Infinity t) = (if s = t then Infinity s else NaN)"
| "fadd NaN y = NaN"
| "fadd x NaN = NaN"

section \<open>Converting a string to a float\<close>

text \<open>
  The first code points of the runs of ten decimal digits of Unicode 14.0 (the characters
  of category \<open>Nd\<close>), and the digit a character stands for.
\<close>

definition decimal_bases :: "nat list" where
  "decimal_bases =
     [48, 1632, 1776, 1984, 2406, 2534, 2662, 2790, 2918, 3046, 3174, 3302, 3430, 3558,
      3664, 3792, 3872, 4160, 4240, 6112, 6160, 6470, 6608, 6784, 6800, 6992, 7088, 7232,
      7248, 42528, 43216, 43264, 43472, 43504, 43600, 44016, 65296, 66720, 68912, 69734,
      69872, 69942, 70096, 70384, 70736, 70864, 71248, 71360, 71472, 71904, 72016, 72784,
      73040, 73120, 92768, 92864, 93008, 120782, 120792, 120802, 120812, 120822, 123200,
      123632, 125264, 130032]"

definition unicode_decimal :: "nat \<Rightarrow> nat option" where
  "unicode_decimal c =
     (case find (\<lambda>b. b \<le> c \<and> c < b + 10) decimal_bases of
        None \<Rightarrow> None
      | Some b \<Rightarrow> Some (c - b))"

text \<open>
  \<open>float(s)\<close> first rewrites the string to ASCII: a character below 127 stays, other
  whitespace becomes a space, another decimal digit its ASCII digit; at any other
  character the string ends with a question mark.
\<close>

fun transform_decimal_and_space :: "pystr \<Rightarrow> pystr" where
  "transform_decimal_and_space [] = []"
| "transform_decimal_and_space (c # cs) =
     (if c < 127 then c # transform_decimal_and_space cs
      else if isspace c then 32 # transform_decimal_and_space cs
      else
        (case unicode_decimal c of
           None \<Rightarrow> [63]
         | Some d \<Rightarrow> (48 + d) # transform_decimal_and_space cs))"

text \<open>Then the whitespace of the C locale is removed from both ends.\<close>

definition c_isspace :: "nat \<Rightarrow> bool" where
  "c_isspace c \<longleftrightarrow> c = 32 \<or> (9 \<le> c \<and> c \<le> 13)"

definition c_strip :: "pystr \<Rightarrow> pystr" where
  "c_strip s = rev (dropWhile c_isspace (rev (dropWhile c_isspace s)))"

definition is_digit :: "nat \<Rightarrow> bool" where
  "is_digit c \<longleftrightarrow> 48 \<le> c \<and> c \<le> 57"

text \<open>
  An underscore is allowed between two digits only; the underscores are removed.
  \<open>prev\<close> is the character before.
\<close>

fun remove_underscores :: "nat \<Rightarrow> pystr \<Rightarrow> pystr option" where
  "remove_underscores prev [] = (if prev = 95 then None else Some [])"
| "remove_underscores prev (c # cs) =
     (if c = 95 then (if is_digit prev then remove_underscores c cs else None)
      else if prev = 95 \<and> \<not> is_digit c then None
      else map_option ((#) c) (remove_underscores c cs))"

definition parse_sign :: "pystr \<Rightarrow> bool \<times> pystr" where
  "parse_sign s =
     (case s of
        [] \<Rightarrow> (False, [])
      | c # cs \<Rightarrow> if c = 45 then (True, cs) else if c = 43 then (False, cs) else (False, s))"

definition nat_of_digits :: "pystr \<Rightarrow> nat" where
  "nat_of_digits ds = foldl (\<lambda>a c. 10 * a + (c - 48)) 0 ds"

text \<open>
  An exponent part \<open>e\<close>, sign, digits at the front of \<open>s\<close>: its value and the rest of
  \<open>s\<close>.  Without a digit nothing is read.
\<close>

definition parse_exponent :: "pystr \<Rightarrow> int \<times> pystr" where
  "parse_exponent s =
     (case s of
        [] \<Rightarrow> (0, s)
      | c # cs \<Rightarrow>
          if c = 101 \<or> c = 69 then
            (let (neg, r) = parse_sign cs; ds = takeWhile is_digit r in
             if ds = [] then (0, s)
             else ((if neg then - int (nat_of_digits ds) else int (nat_of_digits ds)),
                   dropWhile is_digit r))
          else (0, s))"

text \<open>
  A decimal number: sign, digits with at most one point and at least one digit, exponent
  part; nothing may follow.  Its value \<open>digits \<sqdot> 10\<^sup>p\<close> is rounded to the nearest float.
\<close>

definition decimal_to_float :: "bool \<Rightarrow> nat \<Rightarrow> int \<Rightarrow> pyfloat" where
  "decimal_to_float neg digits p =
     (if 0 \<le> p then round_to_float neg (digits * 10 ^ nat p) 1
      else round_to_float neg digits (10 ^ nat (- p)))"

definition parse_number :: "pystr \<Rightarrow> pyfloat option" where
  "parse_number s =
     (let (neg, s1) = parse_sign s;
          ip = takeWhile is_digit s1;
          s2 = dropWhile is_digit s1;
          fp = (case s2 of [] \<Rightarrow> [] | c # r \<Rightarrow> if c = 46 then takeWhile is_digit r else []);
          s3 = (case s2 of [] \<Rightarrow> [] | c # r \<Rightarrow> if c = 46 then dropWhile is_digit r else s2)
      in if ip = [] \<and> fp = [] then None
         else
           let (ex, s4) = parse_exponent s3 in
           if s4 \<noteq> [] then None
           else Some (decimal_to_float neg (nat_of_digits (ip @ fp)) (ex - int (length fp))))"

text \<open>\<open>inf\<close>, \<open>infinity\<close> and \<open>nan\<close>, in any case, with a sign.\<close>

definition lower :: "nat \<Rightarrow> nat" where
  "lower c = (if 65 \<le> c \<and> c \<le> 90 then c + 32 else c)"

definition parse_inf_or_nan :: "pystr \<Rightarrow> pyfloat option" where
  "parse_inf_or_nan s =
     (let (neg, r) = parse_sign s; l = map lower r in
      if l = ascii ''inf'' \<or> l = ascii ''infinity'' then Some (Infinity neg)
      else if l = ascii ''nan'' then Some NaN
      else None)"

text \<open>\<open>float(s)\<close> for a string \<open>s\<close>.\<close>

definition py_float :: "pystr \<Rightarrow> exn + pyfloat" where
  "py_float s =
     (case remove_underscores 0 (c_strip (transform_decimal_and_space s)) of
        None \<Rightarrow> Inl ValueError
      | Some u \<Rightarrow>
          (case parse_number u of
             Some x \<Rightarrow> Inr x
           | None \<Rightarrow>
               (case parse_inf_or_nan u of
                  Some x \<Rightarrow> Inr x
                | None \<Rightarrow> Inl ValueError)))"

section \<open>Text building\<close>

text \<open>\<open>sep.join(xs)\<close>, and \<open>s.replace(c, new)\<close> for a single character \<open>c\<close>.\<close>

definition join :: "pystr \<Rightarrow> pystr list \<Rightarrow> pystr" where
  "join sep xs = (case xs of [] \<Rightarrow> [] | x # r \<Rightarrow> x @ concat (map (\<lambda>y. sep @ y) r))"

definition replace_char :: "nat \<Rightarrow> pystr \<Rightarrow> pystr \<Rightarrow> pystr" where
  "replace_char c new s = concat (map (\<lambda>x. if x = c then new else [x]) s)"

text \<open>
  \<open>html.escape(s)\<close> (with \<open>quote=True\<close>): five replacements one after the other, the
  ampersand first.
\<close>

definition html_escape :: "pystr \<Rightarrow> pystr" where
  \<open>html_escape s =
     (let s1 = replace_char 38 (ascii ''&amp;'') s;
          s2 = replace_char 60 (ascii ''&lt;'') s1;
          s3 = replace_char 62 (ascii ''&gt;'') s2;
          s4 = replace_char 34 (ascii ''&quot;'') s3
      in replace_char 39 (ascii ''&#x27;'') s4)\<close>

text \<open>\<open>str(i)\<close> for an integer: its decimal digits, after a minus sign when negative.\<close>

fun digits_of :: "nat \<Rightarrow> pystr" where
  "digits_of n = (if n < 10 then [48 + n] else digits_of (n div 10) @ [48 + n mod 10])"

declare digits_of.simps [simp del]

definition str_int :: "int \<Rightarrow> pystr" where
  "str_int i = (if i < 0 then 45 # digits_of (nat (- i)) else digits_of (nat i))"

section \<open>The aggregator\<close>

text \<open>
  The value that \<open>aggregated\<close> holds for a timestamp is a dictionary with exactly the
  keys \<open>cpu\<close> and \<open>mem\<close>: a record of the two running sums, \<open>cpu_sum\<close> and
  \<open>mem_sum\<close>.
\<close>

record totals =
  cpu_sum :: pyfloat
  mem_sum :: pyfloat

text \<open>
  The loop of \<open>build_html\<close> over the rows.  A row without one of the keys raises
  \<open>KeyError\<close>, a \<open>cpu_pct\<close> or \<open>mem_pct\<close> that is no float literal \<open>ValueError\<close>.
\<close>

fun aggregate_rows ::
  "(pystr, totals) dict \<Rightarrow> pystr list \<Rightarrow> row list \<Rightarrow> exn + (pystr, totals) dict \<times> pystr list"
where
  "aggregate_rows aggregated time_order [] = Inr (aggregated, time_order)"
| "aggregate_rows aggregated time_order (row # rows) =
     (case getitem row (ascii ''time'') of Inl e \<Rightarrow> Inl e | Inr time_key \<Rightarrow>
      case getitem row (ascii ''cpu_pct'') of Inl e \<Rightarrow> Inl e | Inr cpu_text \<Rightarrow>
      case py_float cpu_text of Inl e \<Rightarrow> Inl e | Inr cpu \<Rightarrow>
      case getitem row (ascii ''mem_pct'') of Inl e \<Rightarrow> Inl e | Inr mem_text \<Rightarrow>
      case py_float mem_text of Inl e \<Rightarrow> Inl e | Inr mem \<Rightarrow>
        let new = (map_of aggregated time_key = None);
            aggregated1 =
              (if new then AList.update time_key \<lparr>cpu_sum = zero_float, mem_sum = zero_float\<rparr> aggregated
               else aggregated);
            time_order1 = (if new then time_order @ [time_key] else time_order)
        in
          case getitem aggregated1 time_key of Inl e \<Rightarrow> Inl e | Inr entry \<Rightarrow>
            aggregate_rows
              (AList.update time_key
                 \<lparr>cpu_sum = fadd (cpu_sum entry) cpu, mem_sum = fadd (mem_sum entry) mem\<rparr> aggregated1)
              time_order1 rows)"

text \<open>
  What one turn of the loop reads from a row, in the order of the loop: the timestamp, the
  CPU value and the memory value, or the exception of the first step that fails.
\<close>

definition read_row :: "row \<Rightarrow> exn + (pystr \<times> pyfloat \<times> pyfloat)" where
  "read_row row =
     (case getitem row (ascii ''time'') of Inl e \<Rightarrow> Inl e | Inr time_key \<Rightarrow>
      case getitem row (ascii ''cpu_pct'') of Inl e \<Rightarrow> Inl e | Inr cpu_text \<Rightarrow>
      case py_float cpu_text of Inl e \<Rightarrow> Inl e | Inr cpu \<Rightarrow>
      case getitem row (ascii ''mem_pct'') of Inl e \<Rightarrow> Inl e | Inr mem_text \<Rightarrow>
      case py_float mem_text of Inl e \<Rightarrow> Inl e | Inr mem \<Rightarrow> Inr (time_key, cpu, mem))"

text \<open>
  \<open>chart_data\<close> is a dictionary with exactly the keys \<open>labels\<close>, \<open>cpu\<close> and
  \<open>mem\<close>: a record of the three lists.
\<close>

record chart =
  labels :: "pystr list"
  cpu :: "pyfloat list"
  mem :: "pyfloat list"

text \<open>
  The aggregation as a whole: the loop, the two list comprehensions over \<open>times\<close>
  (here \<open>times'\<close>), and \<open>chart_data\<close>.
\<close>

definition aggregate :: "row list \<Rightarrow> exn + chart" where
  "aggregate rows =
     (case aggregate_rows [] [] rows of Inl e \<Rightarrow> Inl e | Inr (aggregated, time_order) \<Rightarrow>
      let times' = time_order in
      case map_exn (\<lambda>t. map_sum id cpu_sum (getitem aggregated t)) times' of
        Inl e \<Rightarrow> Inl e | Inr cpu_values \<Rightarrow>
      case map_exn (\<lambda>t. map_sum id mem_sum (getitem aggregated t)) times' of
        Inl e \<Rightarrow> Inl e | Inr mem_values \<Rightarrow>
      Inr \<lparr>labels = times', cpu = cpu_values, mem = mem_values\<rparr>)"

section \<open>The renderer\<close>

text \<open>One table row; the keys are read from left to right.\<close>

definition row_cell :: "row \<Rightarrow> exn + pystr" where
  "row_cell row =
     (case getitem row (ascii ''time'') of Inl e \<Rightarrow> Inl e | Inr t \<Rightarrow>
      case getitem row (ascii ''pid'') of Inl e \<Rightarrow> Inl e | Inr p \<Rightarrow>
      case getitem row (ascii ''cpu_pct'') of Inl e \<Rightarrow> Inl e | Inr c \<Rightarrow>
      case getitem row (ascii ''mem_pct'') of Inl e \<Rightarrow> Inl e | Inr m \<Rightarrow>
      Inr (ascii ''<tr><td>'' @ html_escape t @ ascii ''</td><td>'' @ html_escape p @
           ascii ''</td><td>'' @ html_escape c @ ascii ''</td><td>'' @ html_escape m @
           ascii ''</td></tr>''))"

text \<open>
  \<open>json.dumps(chart_data)\<close>.  A string is written between double quotes, with a
  backslash escape for every character that is not printable ASCII, for the double
  quote and for the backslash; a character beyond the basic plane as its two surrogates.
\<close>

definition hex_digit :: "nat \<Rightarrow> nat" where
  "hex_digit d = (if d < 10 then 48 + d else 87 + d)"

definition json_u :: "nat \<Rightarrow> pystr" where
  "json_u n =
     [92, 117, hex_digit (n div 4096 mod 16), hex_digit (n div 256 mod 16),
      hex_digit (n div 16 mod 16), hex_digit (n mod 16)]"

definition json_char :: "nat \<Rightarrow> pystr" where
  "json_char c =
     (if c = 34 then [92, 34]
      else if c = 92 then [92, 92]
      else if c = 10 then [92, 110]
      else if c = 13 then [92, 114]
      else if c = 9 then [92, 116]
      else if c = 12 then [92, 102]
      else if c = 8 then [92, 98]
      else if 32 \<le> c \<and> c \<le> 126 then [c]
      else if 65536 \<le> c then
        json_u (55296 + (c - 65536) div 1024) @ json_u (56320 + c mod 1024)
      else json_u c)"

definition json_string :: "pystr \<Rightarrow> pystr" where
  "json_string s = [34] @ concat (map json_char s) @ [34]"

text \<open>
  A float is written by \<open>float.__repr__\<close>, the shortest decimal numeral that reads back
  as the same float; it is the parameter \<open>float_repr\<close>.  The encoder has names of its own
  for the three values that are not finite.
\<close>

definition json_float :: "(pyfloat \<Rightarrow> pystr) \<Rightarrow> pyfloat \<Rightarrow> pystr" where
  "json_float float_repr x =
     (case x of
        NaN \<Rightarrow> ascii ''NaN''
      | Infinity s \<Rightarrow> if s then ascii ''-Infinity'' else ascii ''Infinity''
      | Finite s m e \<Rightarrow> float_repr x)"

definition json_list :: "pystr list \<Rightarrow> pystr" where
  "json_list items = ascii ''['' @ join (ascii '', '') items @ ascii '']''"

definition json_dumps :: "(pyfloat \<Rightarrow> pystr) \<Rightarrow> chart \<Rightarrow> pystr" where
  "json_dumps float_repr chart_data =
     ascii ''{'' @
     json_string (ascii ''labels'') @ ascii '': '' @
       json_list (map json_string (labels chart_data)) @ ascii '', '' @
     json_string (ascii ''cpu'') @ ascii '': '' @
       json_list (map (json_float float_repr) (cpu chart_data)) @ ascii '', '' @
     json_string (ascii ''mem'') @ ascii '': '' @
       json_list (map (json_float float_repr) (mem chart_data)) @
     ascii ''}''"

text \<open>The fixed text of the page, in the nine pieces between the fields of the template.\<close>

definition page_title :: pystr where
  \<open>page_title =
     concat (map ascii
       [''\<newline>'',
        ''<!DOCTYPE html>\<newline>'',
        ''<html lang="en">\<newline>'',
        ''<head>\<newline>'',
        ''    <meta charset="UTF-8" />\<newline>'',
        ''    <meta name="viewport" content="width=device-width, initial-scale=1.0" />\<newline>'',
        ''    <title>''])\<close>

definition page_style :: pystr where
  \<open>page_style =
     concat (map ascii
       [''</title>\<newline>'',
        ''    <script src="https://cdn.jsdelivr.net/npm/chart.js"></script>\<newline>'',
        ''    <style>\<newline>'',
        ''        body { font-family: Arial, sans-serif; margin: 1.5rem; }\<newline>'',
        ''        h1, h2 { margin-bottom: 0.2rem; }\<newline>'',
        ''        table { border-collapse: collapse; margin-top: 1rem; width: 100%; max-width: 640px; }\<newline>'',
        ''        th, td { border: 1px solid #ddd; padding: 0.4rem 0.6rem; text-align: right; }\<newline>'',
        ''        th { background: #f3f3f3; }\<newline>'',
        ''        pre { background: #f8f8f8; padding: 1rem; overflow: auto; }\<newline>'',
        ''        .chart-container { max-width: 960px; }\<newline>'',
        ''    </style>\<newline>'',
        ''</head>\<newline>'',
        ''<body>\<newline>'',
        ''    <h1>''])\<close>

definition page_target :: pystr where
  \<open>page_target =
     concat (map ascii
       [''</h1>\<newline>'',
        ''    <p>''])\<close>

definition page_every :: pystr where
  \<open>page_every =
     concat (map ascii
       ['' sampled every ''])\<close>

definition page_for :: pystr where
  \<open>page_for =
     concat (map ascii
       [''s for ''])\<close>

definition page_table :: pystr where
  \<open>page_table =
     concat (map ascii
       ['' cycles.</p>\<newline>'',
        ''\<newline>'',
        ''    <div class="chart-container"> <canvas id="cpuChart"></canvas> </div>\<newline>'',
        ''    <div class="chart-container"> <canvas id="memChart"></canvas> </div>\<newline>'',
        ''\<newline>'',
        ''    <h2>Samples</h2>\<newline>'',
        ''    <table aria-label="pidstat samples">\<newline>'',
        ''        <thead>\<newline>'',
        ''            <tr><th scope="col">Time</th><th scope="col">PID</th><th scope="col">CPU %</th><th scope="col">Memory %</th></tr>\<newline>'',
        ''        </thead>\<newline>'',
        ''        <tbody>\<newline>'',
        ''            ''])\<close>

definition page_raw :: pystr where
  \<open>page_raw =
     concat (map ascii
       [''\<newline>'',
        ''        </tbody>\<newline>'',
        ''    </table>\<newline>'',
        ''\<newline>'',
        ''    <h2>pidstat output</h2>\<newline>'',
        ''    <pre>''])\<close>

definition page_script :: pystr where
  \<open>page_script =
     concat (map ascii
       [''</pre>\<newline>'',
        ''\<newline>'',
        ''    <script>\<newline>'',
        ''        const data = ''])\<close>

definition page_charts :: pystr where
  \<open>page_charts =
     concat (map ascii
       ['';\<newline>'',
        ''        const cpuCtx = document.getElementById('cpuChart');\<newline>'',
        ''        new Chart(cpuCtx, {\<newline>'',
        ''            type: 'line',\<newline>'',
        ''            data: {\<newline>'',
        ''                labels: data.labels,\<newline>'',
        ''                datasets: [{\<newline>'',
        ''                    label: 'CPU %',\<newline>'',
        ''                    data: data.cpu,\<newline>'',
        ''                    fill: false,\<newline>'',
        ''                    borderColor: '#2563eb',\<newline>'',
        ''                    tension: 0.2\<newline>'',
        ''                }]\<newline>'',
        ''            },\<newline>'',
        ''            options: {\<newline>'',
        ''                responsive: true,\<newline>'',
        ''                plugins: {\<newline>'',
        ''                    legend: { position: 'top' }\<newline>'',
        ''                },\<newline>'',
        ''                scales: {\<newline>'',
        ''                    y: { beginAtZero: true, title: { display: true, text: 'CPU %' } },\<newline>'',
        ''                    x: { title: { display: true, text: 'Time' } }\<newline>'',
        ''                }\<newline>'',
        ''            }\<newline>'',
        ''        });\<newline>'',
        ''\<newline>'',
        ''        const memCtx = document.getElementById('memChart');\<newline>'',
        ''        new Chart(memCtx, {\<newline>'',
        ''            type: 'line',\<newline>'',
        ''            data: {\<newline>'',
        ''                labels: data.labels,\<newline>'',
        ''                datasets: [{\<newline>'',
        ''                    label: 'Memory %',\<newline>'',
        ''                    data: data.mem,\<newline>'',
        ''                    fill: false,\<newline>'',
        ''                    borderColor: '#16a34a',\<newline>'',
        ''                    tension: 0.2\<newline>'',
        ''                }]\<newline>'',
        ''            },\<newline>'',
        ''            options: {\<newline>'',
        ''                responsive: true,\<newline>'',
        ''                plugins: {\<newline>'',
        ''                    legend: { position: 'top' }\<newline>'',
        ''                },\<newline>'',
        ''                scales: {\<newline>'',
        ''                    y: { beginAtZero: true, title: { display: true, text: 'Memory %' } },\<newline>'',
        ''                    x: { title: { display: true, text: 'Time' } }\<newline>'',
        ''                }\<newline>'',
        ''            }\<newline>'',
        ''        });\<newline>'',
        ''    </script>\<newline>'',
        ''</body>\<newline>'',
        ''</html>\<newline>''])\<close>

text \<open>
  \<open>build_html\<close>: the aggregation, the table rows, and the template filled in.
\<close>

definition build_html ::
  "(pyfloat \<Rightarrow> pystr) \<Rightarrow> row list \<Rightarrow> pystr \<Rightarrow> int option \<Rightarrow> int \<Rightarrow> int \<Rightarrow> pystr \<Rightarrow> exn + pystr"
where
  "build_html float_repr rows raw_output pid interval count' title =
     (case aggregate rows of Inl e \<Rightarrow> Inl e | Inr chart_data \<Rightarrow>
      let escaped_raw_output = html_escape raw_output in
      case map_exn row_cell rows of Inl e \<Rightarrow> Inl e | Inr cells \<Rightarrow>
      let row_cells = join (ascii ''\<newline>'') cells in
      Inr (page_title @ html_escape title @
           page_style @ html_escape title @
           page_target @ (case pid of None \<Rightarrow> ascii ''All PIDs'' | Some p \<Rightarrow> ascii ''PID '' @ str_int p) @
           page_every @ str_int interval @
           page_for @ str_int count' @
           page_table @ row_cells @
           page_raw @ escaped_raw_output @
           page_script @ json_dumps float_repr chart_data @
           page_charts))"

section \<open>The sampler\<close>

text \<open>
  What \<open>subprocess.run\<close> gives back: the exit status of the command and the text it
  wrote to its standard output.  The command itself is outside the program: running it
  is a function \<open>run\<close> from the command line to its result.  With \<open>check=True\<close> an
  exit status other than zero raises \<open>CalledProcessError\<close>.
\<close>

record completed_process =
  returncode :: int
  stdout :: pystr

definition run_pidstat ::
  "(pystr list \<Rightarrow> completed_process) \<Rightarrow> int option \<Rightarrow> int \<Rightarrow> int \<Rightarrow> exn + pystr"
where
  "run_pidstat run pid interval count' =
     (let pid_arg = (case pid of None \<Rightarrow> ascii ''ALL'' | Some p \<Rightarrow> str_int p);
          command =
            [ascii ''pidstat'', ascii ''-durh'', ascii ''-p'', pid_arg, str_int interval,
             str_int count'];
          result = run command
      in if returncode result \<noteq> 0 then Inl CalledProcessError else Inr (stdout result))"

section \<open>The command-line program\<close>

text \<open>
  The arguments as \<open>parse_args\<close> returns them; the part of the world the program
  changes: the files, by path, and the lines printed; and what the program takes from its
  surroundings: the command runner, the resolution of a path to an absolute one, and the
  formatting of floats.  The command is taken to start and the file to be writable.
\<close>

record args =
  arg_pid :: "int option"
  arg_interval :: int
  arg_count :: int
  arg_output :: pystr
  arg_title :: pystr

record world =
  files :: "pystr \<rightharpoonup> pystr"
  printed :: "pystr list"

record runtime =
  subprocess_run :: "pystr list \<Rightarrow> completed_process"
  path_resolve :: "pystr \<Rightarrow> pystr"
  float_repr_of :: "pyfloat \<Rightarrow> pystr"

definition write_report :: "pystr \<Rightarrow> pystr \<Rightarrow> world \<Rightarrow> world" where
  "write_report html_content output_path w = w\<lparr>files := (files w)(output_path \<mapsto> html_content)\<rparr>"

definition print_line :: "pystr \<Rightarrow> world \<Rightarrow> world" where
  "print_line s w = w\<lparr>printed := printed w @ [s]\<rparr>"

definition main :: "runtime \<Rightarrow> args \<Rightarrow> world \<Rightarrow> (exn + unit) \<times> world" where
  "main rt a w =
     (case run_pidstat (subprocess_run rt) (arg_pid a) (arg_interval a) (arg_count a) of
        Inl e \<Rightarrow> (Inl e, w)
      | Inr pidstat_output \<Rightarrow>
          let rows = parse_pidstat_output pidstat_output in
          if rows = [] then
            (Inl (SystemExit (ascii ''No pidstat rows parsed; check PID and pidstat output'')), w)
          else
            (case build_html (float_repr_of rt) rows pidstat_output (arg_pid a) (arg_interval a)
                    (arg_count a) (arg_title a) of
               Inl e \<Rightarrow> (Inl e, w)
             | Inr html_report \<Rightarrow>
                 (Inr (),
                  print_line (ascii ''Report written to '' @ path_resolve rt (arg_output a))
                    (write_report html_report (arg_output a) w))))"


section \<open>Notions of the specification\<close>

text \<open>
  The sum of a list of floats as the loop computes it: from \<open>0.0\<close>, one addition per
  element, from left to right.
\<close>

definition float_sum :: "pyfloat list \<Rightarrow> pyfloat" where
  "float_sum xs = foldl fadd zero_float xs"

text \<open>
  The distinct elements of a list in the order of their first occurrence, and the
  position of the first occurrence of an element.
\<close>

primrec first_seen :: "'a list \<Rightarrow> 'a list" where
  "first_seen [] = []"
| "first_seen (x # xs) = x # removeAll x (first_seen xs)"

definition first_index :: "'a list \<Rightarrow> 'a \<Rightarrow> nat" where
  "first_index xs x = length (takeWhile (\<lambda>y. y \<noteq> x) xs)"

text \<open>
  The CPU values and the memory values of the samples with timestamp \<open>t\<close>, in input
  order; the state of the loop after the samples; the chart of the samples.
\<close>

definition cpu_at :: "(pystr \<times> pyfloat \<times> pyfloat) list \<Rightarrow> pystr \<Rightarrow> pyfloat list" where
  "cpu_at samples t = map (\<lambda>s. fst (snd s)) (filter (\<lambda>s. fst s = t) samples)"

definition mem_at :: "(pystr \<times> pyfloat \<times> pyfloat) list \<Rightarrow> pystr \<Rightarrow> pyfloat list" where
  "mem_at samples t = map (\<lambda>s. snd (snd s)) (filter (\<lambda>s. fst s = t) samples)"

definition totals_at :: "(pystr \<times> pyfloat \<times> pyfloat) list \<Rightarrow> pystr \<Rightarrow> totals" where
  "totals_at samples t =
     \<lparr>cpu_sum = float_sum (cpu_at samples t), mem_sum = float_sum (mem_at samples t)\<rparr>"

definition chart_of :: "(pystr \<times> pyfloat \<times> pyfloat) list \<Rightarrow> chart" where
  "chart_of samples =
     \<lparr>labels = first_seen (map fst samples),
      cpu = map (\<lambda>t. float_sum (cpu_at samples t)) (first_seen (map fst samples)),
      mem = map (\<lambda>t. float_sum (mem_at samples t)) (first_seen (map fst samples))\<rparr>"

definition aggregated_of :: "(pystr \<times> pyfloat \<times> pyfloat) list \<Rightarrow> (pystr, totals) dict" where
  "aggregated_of samples = map (\<lambda>t. (t, totals_at samples t)) (first_seen (map fst samples))"




section \<open>Sample inputs\<close>

text \<open>A data line as \<open>pidstat -durh\<close> prints it, and a report around it.\<close>

definition sample_line :: pystr where
  "sample_line =
     ascii ''10:00:01  1000  4242  1.00  2.00  0.00  3.00  0  5.0  0.0  100  200  0.50  1.0  2.0  0.0  0  init''"

definition sample_tokens :: "pystr list" where
  "sample_tokens =
     map ascii [''10:00:01'', ''1000'', ''4242'', ''1.00'', ''2.00'', ''0.00'', ''3.00'', ''0'',
       ''5.0'', ''0.0'', ''100'', ''200'', ''0.50'', ''1.0'', ''2.0'', ''0.0'', ''0'', ''init'']"

definition sample_stdout :: pystr where
  "sample_stdout =
     ascii ''Linux 5.4.0 (host)\<newline>\<newline>#  Time  UID  PID  %usr\<newline>'' @ sample_line @
     ascii ''\<newline>10:00:01  1000  17  short\<newline>Average:  1000  4242  1.00\<newline>''"

text \<open>
  A report for two processes at one timestamp, with CPU values 10 and 20, and its two
  records; a record of the first process one second later.
\<close>

definition two_pid_stdout :: pystr where
  "two_pid_stdout =
     ascii ''#  Time  UID  PID  %usr  %system  %guest  %CPU  CPU  minflt/s  majflt/s  VSZ  RSS  %MEM  kB_rd/s  kB_wr/s  kB_ccwr/s  iodelay  Command\<newline>'' @
     ascii ''10:00:01  1000  4242  6.00  4.00  0.00  10.00  0  5.00  0.00  1000  200  0.50  1.00  2.00  0.00  0  init\<newline>'' @
     ascii ''10:00:01  1000  4243  15.00  5.00  0.00  20.00  1  5.00  0.00  1000  200  1.25  1.00  2.00  0.00  0  bash\<newline>''"

definition row_4242 :: row where
  "row_4242 = zip TABLE_COLUMNS (map ascii [''10:00:01'', ''1000'', ''4242'', ''6.00'', ''4.00'', ''0.00'', ''10.00'', ''0'', ''5.00'', ''0.00'', ''1000'', ''200'', ''0.50'', ''1.00'', ''2.00'', ''0.00'', ''0'', ''init''])"

definition row_4243 :: row where
  "row_4243 = zip TABLE_COLUMNS (map ascii [''10:00:01'', ''1000'', ''4243'', ''15.00'', ''5.00'', ''0.00'', ''20.00'', ''1'', ''5.00'', ''0.00'', ''1000'', ''200'', ''1.25'', ''1.00'', ''2.00'', ''0.00'', ''0'', ''bash''])"

definition row_late :: row where
  "row_late = zip TABLE_COLUMNS (map ascii [''10:00:02'', ''1000'', ''4242'', ''6.00'', ''4.00'', ''0.00'', ''10.00'', ''0'', ''5.00'', ''0.00'', ''1000'', ''200'', ''0.50'', ''1.00'', ''2.00'', ''0.00'', ''0'', ''init''])"




text \<open>A command that exits with status 0 and prints its own command line.\<close>

definition echo_run :: "pystr list \<Rightarrow> completed_process" where
  "echo_run command = \<lparr>returncode = 0, stdout = join (ascii '' '') command\<rparr>"

text \<open>A data line whose CPU field is not a number, and its record.\<close>

definition bad_stdout :: pystr where
  "bad_stdout =
     ascii ''10:00:01  1000  4242  6.00  4.00  0.00  n/a  0  5.00  0.00  1000  200  0.50  1.00  2.00  0.00  0  init''"

definition row_bad :: row where
  "row_bad =
     zip TABLE_COLUMNS
       (map ascii [''10:00:01'', ''1000'', ''4242'', ''6.00'', ''4.00'', ''0.00'', ''n/a'', ''0'',
          ''5.00'', ''0.00'', ''1000'', ''200'', ''0.50'', ''1.00'', ''2.00'', ''0.00'', ''0'',
          ''init''])"

text \<open>
  The arguments of a run with no option given, and a world with no file and nothing
  printed.
\<close>

definition sample_args :: args where
  "sample_args =
     \<lparr>arg_pid = None, arg_interval = 1, arg_count = 5,
      arg_output = ascii ''pidstat_report.html'', arg_title = ascii ''pidstat performance report''\<rparr>"

definition empty_world :: world where
  "empty_world = \<lparr>files = Map.empty, printed = []\<rparr>"

text \<open>
  Surroundings in which each command exits with status 0 after printing the text \<open>out\<close>,
  and paths are resolved under \<open>/home/user\<close>; those in which it prints the line above.
\<close>

definition runtime_printing :: "pystr \<Rightarrow> (pyfloat \<Rightarrow> pystr) \<Rightarrow> runtime" where
  "runtime_printing out float_repr =
     \<lparr>subprocess_run = (\<lambda>command. \<lparr>returncode = 0, stdout = out\<rparr>),
      path_resolve = (\<lambda>path. ascii ''/home/user/'' @ path),
      float_repr_of = float_repr\<rparr>"


text \<open>
  Three records at one timestamp, with CPU values 0.10, 0.20 and 0.30, in a report and in
  the report with its lines in the opposite order.
\<close>

definition drift_stdout :: pystr where
  "drift_stdout =
     ascii ''10:00:01  1000  1  0.10  0.00  0.00  0.10  0  5.00  0.00  1000  200  0.00  1.00  2.00  0.00  0  a\<newline>'' @
     ascii ''10:00:01  1000  2  0.20  0.00  0.00  0.20  0  5.00  0.00  1000  200  0.00  1.00  2.00  0.00  0  b\<newline>'' @
     ascii ''10:00:01  1000  3  0.30  0.00  0.00  0.30  0  5.00  0.00  1000  200  0.00  1.00  2.00  0.00  0  c\<newline>''"

definition drift_stdout_rev :: pystr where
  "drift_stdout_rev =
     ascii ''10:00:01  1000  3  0.30  0.00  0.00  0.30  0  5.00  0.00  1000  200  0.00  1.00  2.00  0.00  0  c\<newline>'' @
     ascii ''10:00:01  1000  2  0.20  0.00  0.00  0.20  0  5.00  0.00  1000  200  0.00  1.00  2.00  0.00  0  b\<newline>'' @
     ascii ''10:00:01  1000  1  0.10  0.00  0.00  0.10  0  5.00  0.00  1000  200  0.00  1.00  2.00  0.00  0  a\<newline>''"

definition row_a :: row where
  "row_a = zip TABLE_COLUMNS (map ascii [''10:00:01'', ''1000'', ''1'', ''0.10'', ''0.00'', ''0.00'', ''0.10'', ''0'', ''5.00'', ''0.00'', ''1000'', ''200'', ''0.00'', ''1.00'', ''2.00'', ''0.00'', ''0'', ''a''])"

definition row_b :: row where
  "row_b = zip TABLE_COLUMNS (map ascii [''10:00:01'', ''1000'', ''2'', ''0.20'', ''0.00'', ''0.00'', ''0.20'', ''0'', ''5.00'', ''0.00'', ''1000'', ''200'', ''0.00'', ''1.00'', ''2.00'', ''0.00'', ''0'', ''b''])"

definition row_c :: row where
  "row_c = zip TABLE_COLUMNS (map ascii [''10:00:01'', ''1000'', ''3'', ''0.30'', ''0.00'', ''0.00'', ''0.30'', ''0'', ''5.00'', ''0.00'', ''1000'', ''200'', ''0.00'', ''1.00'', ''2.00'', ''0.00'', ''0'', ''c''])"

section \<open>Properties of the dictionaries\<close>

lemma update_fresh: "k \<notin> fst ` set d \<Longrightarrow> AList.update k v d = d @ [(k, v)]"
  by (induction d) auto

lemma foldl_update_distinct:
  "distinct (map fst (d @ ps)) \<Longrightarrow>
   foldl (\<lambda>d kv. AList.update (fst kv) (snd kv) d) d ps = d @ ps"
proof (induction ps arbitrary: d)
  case Nil
  then show ?case by simp
next
  case (Cons p ps)
  have fresh: "fst p \<notin> fst ` set d" using Cons.prems by auto
  have "distinct (map fst ((d @ [p]) @ ps))" using Cons.prems by simp
  from Cons.IH [OF this] fresh show ?case
    by (simp add: update_fresh)
qed

lemma dict_of_distinct: "distinct (map fst ps) \<Longrightarrow> dict_of ps = ps"
  using foldl_update_distinct [of "[]" ps] by (simp add: dict_of_def)

section \<open>Properties of the floating-point numbers\<close>

lemma bit_length_0 [simp]: "bit_length 0 = 0"
  by (simp add: bit_length.simps)

lemma bit_length_pos: "0 < n \<Longrightarrow> bit_length n = Suc (bit_length (n div 2))"
  by (simp add: bit_length.simps [of n])

lemma bit_length_bounds:
  "0 < n \<Longrightarrow> 2 ^ (bit_length n - 1) \<le> n \<and> n < 2 ^ bit_length n"
proof (induction n rule: bit_length.induct)
  case (1 n)
  show ?case
  proof (cases "n div 2 = 0")
    case True
    with "1.prems" have "n = 1" by (simp add: div_eq_0_iff)
    then show ?thesis by (simp add: bit_length_pos)
  next
    case False
    then have pos: "0 < n div 2" by simp
    from "1.IH" [OF _ pos] "1.prems"
    have IH: "2 ^ (bit_length (n div 2) - 1) \<le> n div 2" "n div 2 < 2 ^ bit_length (n div 2)"
      by simp_all
    have bl: "bit_length n = Suc (bit_length (n div 2))"
      using "1.prems" by (rule bit_length_pos)
    have "0 < bit_length (n div 2)"
      using pos by (simp add: bit_length_pos)
    then obtain k where k: "bit_length (n div 2) = Suc k"
      by (cases "bit_length (n div 2)") simp_all
    from IH have "2 * 2 ^ k \<le> 2 * (n div 2)" "2 * (n div 2) + 1 < 2 * 2 ^ Suc k"
      by (simp_all add: k)
    then show ?thesis
      by (simp add: bl k) linarith
  qed
qed

lemma bit_length_unique:
  assumes "2 ^ k \<le> n" "n < 2 ^ Suc k"
  shows "bit_length n = Suc k"
proof -
  have "(0::nat) < 2 ^ k" by simp
  with assms(1) have pos: "0 < n" by linarith
  from bit_length_bounds [OF pos] have b: "2 ^ (bit_length n - 1) \<le> n" "n < 2 ^ bit_length n"
    by simp_all
  have "(2::nat) ^ k < 2 ^ bit_length n" using assms(1) b(2) by linarith
  then have 1: "k < bit_length n" by (rule power_less_imp_less_exp [rotated]) simp
  have "(2::nat) ^ (bit_length n - 1) < 2 ^ Suc k" using assms(2) b(1) by linarith
  then have 2: "bit_length n - 1 < Suc k" by (rule power_less_imp_less_exp [rotated]) simp
  from 1 2 show ?thesis by linarith
qed

lemma bit_length_mult_pow2: "0 < n \<Longrightarrow> bit_length (n * 2 ^ j) = bit_length n + j"
proof -
  assume pos: "0 < n"
  from bit_length_bounds [OF pos] have b: "2 ^ (bit_length n - 1) \<le> n" "n < 2 ^ bit_length n"
    by simp_all
  have "0 < bit_length n" using pos by (simp add: bit_length_pos)
  then obtain k where k: "bit_length n = Suc k" by (cases "bit_length n") simp_all
  have "2 ^ (k + j) \<le> n * 2 ^ j" using b(1) by (simp add: k power_add)
  moreover have "n * 2 ^ j < 2 ^ Suc (k + j)" using b(2) by (simp add: k power_add)
  ultimately have "bit_length (n * 2 ^ j) = Suc (k + j)" by (rule bit_length_unique)
  then show ?thesis by (simp add: k)
qed

lemma bit_length_pow2: "bit_length (2 ^ j) = Suc j"
  by (rule bit_length_unique) simp_all

lemma rne_div_exact: "0 < d \<Longrightarrow> rne_div (n * d) d = n"
  by (simp add: rne_div_def)

lemma rne_div_lower: "0 < den \<Longrightarrow> lo * den \<le> num \<Longrightarrow> lo \<le> rne_div num den"
proof -
  assume "0 < den" "lo * den \<le> num"
  then have "lo \<le> num div den"
    by (simp add: less_eq_div_iff_mult_less_eq)
  then show ?thesis
    by (simp add: rne_div_def Let_def)
qed

lemma rne_div_upper: "0 < den \<Longrightarrow> num \<le> hi * den \<Longrightarrow> rne_div num den \<le> hi"
proof -
  assume den: "0 < den" and le: "num \<le> hi * den"
  show ?thesis
  proof (cases "num = hi * den")
    case True
    then show ?thesis using den by (simp add: rne_div_def)
  next
    case False
    with le have "num < hi * den" by simp
    then have "num div den < hi"
      using den by (simp add: div_less_iff_less_mult)
    then show ?thesis
      by (simp add: rne_div_def Let_def)
  qed
qed

lemma pow_nat_powi: "0 \<le> k \<Longrightarrow> (2::real) ^ nat k = 2 powi k"
  by (simp add: power_int_def)

lemma bit_length_real_bounds:
  assumes "0 < n"
  shows "2 powi (int (bit_length n) - 1) \<le> real n" "real n < 2 powi (int (bit_length n))"
proof -
  from bit_length_bounds [OF assms] have b: "2 ^ (bit_length n - 1) \<le> n" "n < 2 ^ bit_length n"
    by simp_all
  have pos: "0 < bit_length n" using assms by (simp add: bit_length_pos)
  have "(2::real) ^ (bit_length n - 1) \<le> real n"
    using b(1) by (metis of_nat_le_iff of_nat_numeral of_nat_power)
  moreover have "int (bit_length n) - 1 = int (bit_length n - 1)"
    using pos by simp
  ultimately show "2 powi (int (bit_length n) - 1) \<le> real n"
    by (simp del: of_nat_diff)
  have "real n < (2::real) ^ bit_length n"
    using b(2) by (metis of_nat_less_iff of_nat_numeral of_nat_power)
  then show "real n < 2 powi (int (bit_length n))"
    by simp
qed

lemma floor_log2_spec:
  assumes n: "0 < n" and d: "0 < d"
  shows "2 powi (floor_log2 n d) \<le> real n / real d \<and>
         real n / real d < 2 powi (floor_log2 n d + 1)"
proof -
  define l where "l = int (bit_length n) - int (bit_length d)"
  define v where "v = real n / real d"
  have dpos: "0 < real d" using d by simp
  note bn = bit_length_real_bounds [OF n] and bd = bit_length_real_bounds [OF d]
  have up: "v < 2 powi (l + 1)"
  proof -
    have "real n < 2 powi (int (bit_length n))" by (rule bn)
    also have "\<dots> = 2 powi (l + 1) * 2 powi (int (bit_length d) - 1)"
      by (subst power_int_add [symmetric]) (simp_all add: l_def)
    also have "\<dots> \<le> 2 powi (l + 1) * real d"
      using bd(1) by (simp add: mult_left_mono)
    finally show ?thesis
      using dpos by (simp add: v_def pos_divide_less_eq)
  qed
  have lo: "2 powi (l - 1) < v"
  proof -
    have "2 powi (l - 1) * real d < 2 powi (l - 1) * 2 powi (int (bit_length d))"
      using bd(2) by (simp add: mult_strict_left_mono)
    also have "\<dots> = 2 powi (int (bit_length n) - 1)"
      by (subst power_int_add [symmetric]) (simp_all add: l_def)
    also have "\<dots> \<le> real n" by (rule bn)
    finally show ?thesis
      using dpos by (simp add: v_def pos_less_divide_eq)
  qed
  have test_pos: "d * 2 ^ nat l \<le> n \<longleftrightarrow> 2 powi l \<le> v" if "0 \<le> l"
  proof -
    have "d * 2 ^ nat l \<le> n \<longleftrightarrow> real (d * 2 ^ nat l) \<le> real n"
      by (simp only: of_nat_le_iff)
    also have "\<dots> \<longleftrightarrow> real d * 2 powi l \<le> real n"
      using that by (simp add: pow_nat_powi)
    also have "\<dots> \<longleftrightarrow> 2 powi l \<le> v"
      using dpos by (simp add: v_def pos_le_divide_eq mult.commute)
    finally show ?thesis .
  qed
  have test_neg: "d \<le> n * 2 ^ nat (- l) \<longleftrightarrow> 2 powi l \<le> v" if "l < 0"
  proof -
    have "d \<le> n * 2 ^ nat (- l) \<longleftrightarrow> real d \<le> real (n * 2 ^ nat (- l))"
      by (simp only: of_nat_le_iff)
    also have "\<dots> \<longleftrightarrow> real d \<le> real n * 2 powi (- l)"
      using that by (simp add: pow_nat_powi)
    also have "\<dots> \<longleftrightarrow> real d * 2 powi l \<le> real n"
      by (simp add: power_int_minus field_simps)
    also have "\<dots> \<longleftrightarrow> 2 powi l \<le> v"
      using dpos by (simp add: v_def pos_le_divide_eq mult.commute)
    finally show ?thesis .
  qed
  have fl: "floor_log2 n d = (if 2 powi l \<le> v then l else l - 1)"
    using test_pos test_neg by (auto simp: floor_log2_def l_def [symmetric] Let_def)
  show ?thesis
    unfolding fl v_def [symmetric] using up lo by auto
qed

lemma rne_div_real_lower:
  assumes "0 < den" "real lo \<le> real num / real den"
  shows "lo \<le> rne_div num den"
proof -
  from assms have "real lo * real den \<le> real num"
    by (simp add: pos_le_divide_eq)
  then have "lo * den \<le> num"
    by (metis of_nat_le_iff of_nat_mult)
  with assms(1) show ?thesis by (rule rne_div_lower)
qed

lemma rne_div_real_upper:
  assumes "0 < den" "real num / real den \<le> real hi"
  shows "rne_div num den \<le> hi"
proof -
  from assms have "real num \<le> real hi * real den"
    by (simp add: pos_divide_le_eq)
  then have "num \<le> hi * den"
    by (metis of_nat_le_iff of_nat_mult)
  with assms(1) show ?thesis by (rule rne_div_upper)
qed

lemma scaled_significand:
  assumes n: "0 < n" and d: "0 < d"
    and e: "e = max (floor_log2 n d - 52) (- 1074)"
    and m: "m = (if 0 \<le> e then rne_div n (d * 2 ^ nat e) else rne_div (n * 2 ^ nat (- e)) d)"
  shows "m \<le> 2 ^ 53" "2 ^ 52 \<le> m \<or> e = - 1074"
proof -
  define L where "L = floor_log2 n d"
  define v where "v = real n / real d"
  from floor_log2_spec [OF n d] have v: "2 powi L \<le> v" "v < 2 powi (L + 1)"
    by (simp_all add: L_def v_def)
  define num where "num = (if 0 \<le> e then n else n * 2 ^ nat (- e))"
  define den where "den = (if 0 \<le> e then d * 2 ^ nat e else d)"
  have m': "m = rne_div num den"
    by (simp add: m num_def den_def)
  have den: "0 < den"
    using d by (simp add: den_def)
  have sc: "real num / real den = v * 2 powi (- e)"
    by (auto simp: num_def den_def v_def pow_nat_powi power_int_minus field_simps)
  have two: "(2::real) ^ 52 = 2 powi 52" "(2::real) ^ 53 = 2 powi 53"
    by simp_all
  have upper: "real num / real den \<le> 2 ^ 53"
  proof -
    have "L + 1 - e \<le> 53" using e by (simp add: L_def)
    have "v * 2 powi (- e) \<le> 2 powi (L + 1) * 2 powi (- e)"
      using v(2) by (simp add: mult_right_mono)
    also have "\<dots> = 2 powi (L + 1 - e)"
      by (subst power_int_add [symmetric]) simp_all
    also have "\<dots> \<le> 2 powi 53"
      using \<open>L + 1 - e \<le> 53\<close> by (intro power_int_increasing) simp_all
    finally show ?thesis by (simp add: sc)
  qed
  have "real num / real den \<le> real (2 ^ 53)"
    using upper by simp
  with den have "rne_div num den \<le> 2 ^ 53"
    by (rule rne_div_real_upper)
  then show "m \<le> 2 ^ 53" by (simp add: m')
  show "2 ^ 52 \<le> m \<or> e = - 1074"
  proof (cases "e = - 1074")
    case True
    then show ?thesis by simp
  next
    case False
    with e have eL: "e = L - 52" by (simp add: L_def max_def split: if_splits)
    have "(2::real) powi 52 = 2 powi L * 2 powi (- e)"
      by (subst power_int_add [symmetric]) (simp_all add: eL)
    also have "\<dots> \<le> v * 2 powi (- e)"
      using v(1) by (simp add: mult_right_mono)
    finally have "real (2 ^ 52) \<le> real num / real den"
      by (simp add: sc)
    with den have "2 ^ 52 \<le> rne_div num den"
      by (rule rne_div_real_lower)
    then show ?thesis by (simp add: m')
  qed
qed

lemma round_to_float_valid:
  assumes "0 < d"
  shows "valid_float (round_to_float s n d)"
proof (cases "n = 0")
  case True
  then show ?thesis by (simp add: round_to_float_def valid_float_def)
next
  case False
  then have n: "0 < n" by simp
  define e where "e = max (floor_log2 n d - 52) (- 1074)"
  define m where "m = (if 0 \<le> e then rne_div n (d * 2 ^ nat e) else rne_div (n * 2 ^ nat (- e)) d)"
  note b = scaled_significand [OF n assms e_def m_def]
  have e: "- 1074 \<le> e" by (simp add: e_def)
  have r: "round_to_float s n d =
      (if 971 < (if m = 2 ^ 53 then e + 1 else e) then Infinity s
       else Finite s (if m = 2 ^ 53 then 2 ^ 52 else m) (if m = 2 ^ 53 then e + 1 else e))"
    by (simp only: round_to_float_def Let_def e_def m_def False if_False)
  show ?thesis
    unfolding r using b e by (auto simp: valid_float_def)
qed

lemma round_to_float_exact_gen:
  assumes v: "valid_float (Finite s m e)" and m: "0 < m" and p: "int p = 1074"
  shows "round_to_float t (m * 2 ^ nat (e + int p)) (2 ^ p) = Finite t m e"
proof -
  from v have b: "m < 2 ^ 53" "- 1074 \<le> e" "e \<le> 971" "2 ^ 52 \<le> m \<or> e = - 1074"
    by (simp_all add: valid_float_def)
  define j where "j = nat (e + int p)"
  have j: "int j = e + int p" using b(2) p by (simp add: j_def)
  have bl: "bit_length m \<le> 53"
  proof -
    from bit_length_bounds [OF m] have "2 ^ (bit_length m - 1) \<le> m" by simp
    with b(1) have "(2::nat) ^ (bit_length m - 1) < 2 ^ 53" by linarith
    then have "bit_length m - 1 < 53" by (rule power_less_imp_less_exp [rotated]) simp
    then show ?thesis by simp
  qed
  have bl52: "bit_length m = 53" if "2 ^ 52 \<le> m"
    using bit_length_unique [of 52 m] that b(1) by simp
  have blpos: "0 < bit_length m" using m by (simp add: bit_length_pos)
  from bit_length_bounds [OF m] have low: "2 ^ (bit_length m - 1) \<le> m" by simp
  define l where "l = int (bit_length m) + e - 1"
  have l: "int (bit_length (m * 2 ^ j)) - int (bit_length ((2::nat) ^ p)) = l"
    using m by (simp add: bit_length_mult_pow2 bit_length_pow2 j l_def)
  have t1: "(2::nat) ^ p * 2 ^ nat l \<le> m * 2 ^ j" if "0 \<le> l"
  proof -
    have "p + nat l = (bit_length m - 1) + j"
      using that blpos j by (simp add: l_def nat_eq_iff)
    then have "(2::nat) ^ p * 2 ^ nat l = 2 ^ (bit_length m - 1) * 2 ^ j"
      by (simp only: power_add [symmetric])
    also have "\<dots> \<le> m * 2 ^ j" using low by simp
    finally show ?thesis .
  qed
  have t2: "(2::nat) ^ p \<le> m * 2 ^ j * 2 ^ nat (- l)" if "l < 0"
  proof -
    have "p = (bit_length m - 1) + j + nat (- l)"
      using that blpos j by (simp add: l_def nat_eq_iff)
    then have "(2::nat) ^ p = 2 ^ (bit_length m - 1) * 2 ^ j * 2 ^ nat (- l)"
      by (simp only: power_add [symmetric])
    also have "\<dots> \<le> m * 2 ^ j * 2 ^ nat (- l)" using low by simp
    finally show ?thesis .
  qed
  have fl: "floor_log2 (m * 2 ^ j) (2 ^ p) = l"
    unfolding floor_log2_def l Let_def using t1 t2 by simp
  have ee: "max (floor_log2 (m * 2 ^ j) (2 ^ p) - 52) (- 1074) = e"
    using b(4) bl bl52 b(2) by (auto simp: fl l_def max_def)
  have sig: "(if 0 \<le> e then rne_div (m * 2 ^ j) (2 ^ p * 2 ^ nat e)
      else rne_div (m * 2 ^ j * 2 ^ nat (- e)) (2 ^ p)) = m"
  proof (cases "0 \<le> e")
    case True
    then have "p + nat e = j" using j by simp
    then have "(2::nat) ^ p * 2 ^ nat e = 2 ^ j" by (simp only: power_add [symmetric])
    then show ?thesis using True by (simp add: rne_div_exact)
  next
    case False
    then have "j + nat (- e) = p" using j b(2) p by simp
    then have "(2::nat) ^ j * 2 ^ nat (- e) = 2 ^ p" by (simp only: power_add [symmetric])
    then have "m * 2 ^ j * 2 ^ nat (- e) = m * 2 ^ p" by (simp only: mult.assoc)
    then have "rne_div (m * 2 ^ j * 2 ^ nat (- e)) (2 ^ p) = m"
      by (simp only: rne_div_exact zero_less_power zero_less_numeral)
    then show ?thesis using False by simp
  qed
  have "m * 2 ^ j \<noteq> 0" using m by simp
  then show ?thesis
    unfolding j_def [symmetric] round_to_float_def Let_def ee
    using sig b(1,3) by simp
qed

lemma round_to_float_exact:
  assumes "valid_float (Finite s m e)" and "0 < m"
  shows "round_to_float t (m * 2 ^ nat (e + 1074)) (2 ^ 1074) = Finite t m e"
  using round_to_float_exact_gen [OF assms, of 1074 t] by simp

lemma fadd_commute: "fadd x y = fadd y x"
proof (cases x; cases y)
  fix s m e t n f
  assume "x = Finite s m e" "y = Finite t n f"
  then show ?thesis
    by (simp add: Let_def min.commute add.commute conj_commute)
qed simp_all

lemma fadd_zero_left:
  assumes "valid_float (Finite t n f)"
  shows "fadd (Finite s 0 (- 1074)) (Finite t n f) =
     (if n = 0 then Finite (s \<and> t) 0 (- 1074) else Finite t n f)"
proof (cases "n = 0")
  case True
  then show ?thesis by (simp add: signed_int_def)
next
  case False
  then have n: "0 < n" by simp
  from assms have f: "- 1074 \<le> f" by (simp add: valid_float_def)
  have k: "min (- 1074) f = - 1074" using f by simp
  define K where "K = n * 2 ^ nat (f + 1074)"
  have pos: "0 < K" using n by (simp add: K_def)
  have c: "signed_int s (0 * 2 ^ nat (- 1074 - - 1074)) + signed_int t (n * 2 ^ nat (f - - 1074)) =
      signed_int t K"
    by (simp add: signed_int_def K_def)
  have ne: "signed_int t K \<noteq> 0"
    using pos by (simp add: signed_int_def)
  have neg: "signed_int t K < 0 \<longleftrightarrow> t"
    using pos by (simp add: signed_int_def)
  have abs: "nat \<bar>signed_int t K\<bar> = K"
    by (simp add: signed_int_def)
  have "fadd (Finite s 0 (- 1074)) (Finite t n f) = round_to_float t K (2 ^ 1074)"
    unfolding fadd.simps k Let_def c using ne neg abs by simp
  also have "\<dots> = Finite t n f"
    unfolding K_def using assms n by (rule round_to_float_exact)
  finally show ?thesis using False by simp
qed

lemma fadd_zero_float:
  assumes "valid_float x"
  shows "fadd zero_float x = (if x = Finite True 0 (- 1074) then zero_float else x)"
proof (cases x)
  case (Finite t n f)
  with assms have "f = - 1074" if "n = 0"
    using that by (simp add: valid_float_def)
  then show ?thesis
    using fadd_zero_left [of t n f False] assms Finite by (auto simp: zero_float_def)
qed (simp_all add: zero_float_def)

lemma fadd_neg_zero:
  assumes v: "valid_float y" and nz: "y \<noteq> Finite True 0 (- 1074)"
  shows "fadd (Finite True 0 (- 1074)) y = y"
proof (cases y)
  case (Finite t n f)
  have f: "f = - 1074" if "n = 0"
    using that v Finite by (simp add: valid_float_def)
  have "\<not> t" if "n = 0"
    using that f nz Finite by auto
  then show ?thesis
    using fadd_zero_left [of t n f True] v Finite f by auto
qed simp_all

lemma fadd_zero_float_not_neg_zero:
  assumes "valid_float x"
  shows "fadd zero_float x \<noteq> Finite True 0 (- 1074)" "valid_float (fadd zero_float x)"
  using assms fadd_zero_float [OF assms]
  by (auto simp: zero_float_def valid_float_def split: if_splits)

lemma fadd_pair_commute:
  assumes a: "valid_float a" and b: "valid_float b"
  shows "fadd (fadd zero_float a) b = fadd (fadd zero_float b) a"
proof -
  let ?nz = "Finite True 0 (- 1074)"
  consider "a \<noteq> ?nz" "b \<noteq> ?nz" | "a = ?nz" | "b = ?nz" by blast
  then show ?thesis
  proof cases
    case 1
    then show ?thesis
      by (simp add: fadd_zero_float a b fadd_commute [of a b])
  next
    case 2
    have "fadd zero_float a = zero_float"
      using fadd_zero_float [OF a] 2 by simp
    then have "fadd (fadd zero_float a) b = fadd zero_float b"
      by simp
    also have "\<dots> = fadd ?nz (fadd zero_float b)"
      using fadd_zero_float_not_neg_zero [OF b] by (simp add: fadd_neg_zero)
    also have "\<dots> = fadd (fadd zero_float b) a"
      using 2 by (simp add: fadd_commute)
    finally show ?thesis .
  next
    case 3
    have "fadd zero_float b = zero_float"
      using fadd_zero_float [OF b] 3 by simp
    then have "fadd (fadd zero_float b) a = fadd zero_float a"
      by simp
    also have "\<dots> = fadd ?nz (fadd zero_float a)"
      using fadd_zero_float_not_neg_zero [OF a] by (simp add: fadd_neg_zero)
    also have "\<dots> = fadd (fadd zero_float a) b"
      using 3 by (simp add: fadd_commute)
    finally show ?thesis by simp
  qed
qed

lemma py_float_valid:
  assumes "py_float s = Inr x"
  shows "valid_float x"
proof -
  have dec: "valid_float (decimal_to_float neg digits p)" for neg digits p
    by (simp add: decimal_to_float_def round_to_float_valid)
  have num: "valid_float y" if "parse_number u = Some y" for u y
    using that dec
    by (auto simp: parse_number_def Let_def split: prod.splits if_splits)
  have inf: "valid_float y" if "parse_inf_or_nan u = Some y" for u y
    using that
    by (auto simp: parse_inf_or_nan_def Let_def valid_float_def split: prod.splits if_splits)
  from assms show ?thesis
    using num inf
    by (auto simp: py_float_def split: option.splits)
qed

lemma py_float_error: "py_float s = Inl e \<Longrightarrow> e = ValueError"
  by (auto simp: py_float_def split: option.splits)

section \<open>Properties of the aggregation loop\<close>

lemma set_first_seen [simp]: "set (first_seen xs) = set xs"
  by (induction xs) auto

lemma distinct_first_seen [simp]: "distinct (first_seen xs)"
  by (induction xs) (auto simp: distinct_removeAll)

lemma removeAll_first_seen_snoc:
  "removeAll y (if x \<in> set xs then zs else zs @ [x]) =
     (if x \<in> set xs \<or> x = y then removeAll y zs else removeAll y zs @ [x])"
  by auto

lemma first_seen_snoc:
  "first_seen (xs @ [x]) = (if x \<in> set xs then first_seen xs else first_seen xs @ [x])"
  by (induction xs) auto

lemma float_sum_snoc: "float_sum (xs @ [x]) = fadd (float_sum xs) x"
  by (simp add: float_sum_def)

lemma update_map_present:
  "t \<in> set ks \<Longrightarrow> distinct ks \<Longrightarrow>
   AList.update t v (map (\<lambda>k. (k, f k)) ks) = map (\<lambda>k. (k, if k = t then v else f k)) ks"
  by (induction ks) auto

lemma map_of_aggregated_of:
  "map_of (aggregated_of ss) t = (if t \<in> set (map fst ss) then Some (totals_at ss t) else None)"
  by (auto simp: aggregated_of_def map_of_map_restrict restrict_map_def)

lemma totals_at_snoc:
  "totals_at (ss @ [(t, c, m)]) k =
     (if k = t then \<lparr>cpu_sum = fadd (cpu_sum (totals_at ss t)) c, mem_sum = fadd (mem_sum (totals_at ss t)) m\<rparr>
      else totals_at ss k)"
  by (simp add: totals_at_def cpu_at_def mem_at_def float_sum_snoc)

lemma totals_at_absent:
  "t \<notin> fst ` set ss \<Longrightarrow> totals_at ss t = \<lparr>cpu_sum = zero_float, mem_sum = zero_float\<rparr>"
proof -
  assume "t \<notin> fst ` set ss"
  then have "filter (\<lambda>s. fst s = t) ss = []"
    by (auto simp: filter_empty_conv)
  then show ?thesis
    by (simp add: totals_at_def cpu_at_def mem_at_def float_sum_def)
qed

lemma aggregated_of_snoc:
  "aggregated_of (ss @ [(t, c, m)]) =
     AList.update t
       \<lparr>cpu_sum = fadd (cpu_sum (totals_at ss t)) c, mem_sum = fadd (mem_sum (totals_at ss t)) m\<rparr>
       (aggregated_of ss)"
proof (cases "t \<in> fst ` set ss")
  case True
  then have "t \<in> set (first_seen (map fst ss))" by simp
  then show ?thesis
    using True
    by (simp add: aggregated_of_def first_seen_snoc update_map_present totals_at_snoc)
next
  case False
  then have "t \<notin> fst ` set (aggregated_of ss)"
    by (auto simp: aggregated_of_def image_iff)
  then show ?thesis
    using False
    by (auto simp: aggregated_of_def first_seen_snoc update_fresh totals_at_snoc)
qed

lemma update_twice: "AList.update k v (AList.update k u d) = AList.update k v d"
  by (induction d) auto

lemma aggregate_rows_step:
  assumes "read_row row = Inr (t, c, m)"
  shows "aggregate_rows (aggregated_of ss) (first_seen (map fst ss)) (row # rows) =
         aggregate_rows (aggregated_of (ss @ [(t, c, m)])) (first_seen (map fst (ss @ [(t, c, m)]))) rows"
proof -
  from assms obtain ct mt where
    r: "getitem row (ascii ''time'') = Inr t" "getitem row (ascii ''cpu_pct'') = Inr ct"
       "py_float ct = Inr c" "getitem row (ascii ''mem_pct'') = Inr mt" "py_float mt = Inr m"
    by (auto simp: read_row_def split: sum.splits)
  show ?thesis
  proof (cases "t \<in> fst ` set ss")
    case True
    then have "map_of (aggregated_of ss) t = Some (totals_at ss t)"
      by (simp add: map_of_aggregated_of)
    then show ?thesis
      using True r by (simp add: getitem_def aggregated_of_snoc first_seen_snoc)
  next
    case False
    then have none: "map_of (aggregated_of ss) t = None"
      by (simp add: map_of_aggregated_of)
    have zero: "totals_at ss t = \<lparr>cpu_sum = zero_float, mem_sum = zero_float\<rparr>"
      using False by (rule totals_at_absent)
    have get: "getitem (AList.update t z (aggregated_of ss)) t = Inr z" for z
      by (simp add: getitem_def AList.update_conv')
    have snoc: "aggregated_of (ss @ [(t, c, m)]) =
        AList.update t \<lparr>cpu_sum = fadd zero_float c, mem_sum = fadd zero_float m\<rparr> (aggregated_of ss)"
      by (simp add: aggregated_of_snoc zero)
    have order: "first_seen (map fst (ss @ [(t, c, m)])) = first_seen (map fst ss) @ [t]"
      using False by (simp add: first_seen_snoc)
    show ?thesis
      unfolding snoc order
      using r none by (simp add: get update_twice)
  qed
qed

lemma aggregate_rows_samples:
  "map read_row rows = map Inr todo \<Longrightarrow>
   aggregate_rows (aggregated_of ss) (first_seen (map fst ss)) rows =
     Inr (aggregated_of (ss @ todo), first_seen (map fst (ss @ todo)))"
proof (induction rows arbitrary: ss todo)
  case Nil
  then show ?case by simp
next
  case (Cons row rows)
  then obtain s rest where todo: "todo = s # rest" and s: "read_row row = Inr s"
    and rest: "map read_row rows = map Inr rest"
    by (cases todo) auto
  obtain t c m where tcm: "s = (t, c, m)" by (cases s)
  show ?case
    using aggregate_rows_step [of row t c m ss rows] Cons.IH [OF rest, of "ss @ [s]"] s
    by (simp add: todo tcm)
qed

lemma aggregate_rows_error:
  "map read_row pre = map Inr todo \<Longrightarrow> read_row row = Inl e \<Longrightarrow>
   aggregate_rows (aggregated_of ss) (first_seen (map fst ss)) (pre @ row # post) = Inl e"
proof (induction pre arbitrary: ss todo)
  case Nil
  then show ?case
    by (auto simp: read_row_def split: sum.splits)
next
  case (Cons r pre)
  then obtain s rest where todo: "todo = s # rest" and s: "read_row r = Inr s"
    and rest: "map read_row pre = map Inr rest"
    by (cases todo) auto
  obtain t c m where tcm: "s = (t, c, m)" by (cases s)
  show ?case
    using aggregate_rows_step [of r t c m ss "pre @ row # post"]
      Cons.IH [OF rest Cons.prems(2), of "ss @ [s]"] s
    by (simp add: tcm)
qed

lemma map_exn_all:
  "(\<And>x. x \<in> set xs \<Longrightarrow> f x = Inr (g x)) \<Longrightarrow> map_exn f xs = Inr (map g xs)"
  by (induction xs) simp_all

lemma aggregate_samples:
  assumes "map read_row rows = map Inr samples"
  shows "aggregate rows = Inr (chart_of samples)"
proof -
  have loop: "aggregate_rows [] [] rows = Inr (aggregated_of samples, first_seen (map fst samples))"
    using aggregate_rows_samples [OF assms, of "[]"] by (simp add: aggregated_of_def)
  let ?ts = "first_seen (map fst samples)"
  have cpu: "map_exn (\<lambda>t. map_sum id cpu_sum (getitem (aggregated_of samples) t)) ?ts =
      Inr (map (\<lambda>t. float_sum (cpu_at samples t)) ?ts)"
    by (rule map_exn_all) (simp add: getitem_def map_of_aggregated_of totals_at_def)
  have mem: "map_exn (\<lambda>t. map_sum id mem_sum (getitem (aggregated_of samples) t)) ?ts =
      Inr (map (\<lambda>t. float_sum (mem_at samples t)) ?ts)"
    by (rule map_exn_all) (simp add: getitem_def map_of_aggregated_of totals_at_def)
  show ?thesis
    by (simp add: aggregate_def loop cpu mem chart_of_def)
qed

lemma read_rows_cases:
  "(\<exists>samples. map read_row rows = map Inr samples) \<or>
   (\<exists>pre row post samples e. rows = pre @ row # post \<and> map read_row pre = map Inr samples \<and>
      read_row row = Inl e)"
proof (induction rows)
  case Nil
  then show ?case by simp
next
  case (Cons r rows)
  show ?case
  proof (cases "read_row r")
    case (Inl e)
    then have "r # rows = [] @ r # rows \<and> map read_row [] = map Inr [] \<and> read_row r = Inl e"
      by simp
    then show ?thesis by blast
  next
    case (Inr s)
    from Cons.IH show ?thesis
    proof
      assume "\<exists>samples. map read_row rows = map Inr samples"
      then obtain samples where "map read_row rows = map Inr samples" ..
      then have "map read_row (r # rows) = map Inr (s # samples)"
        using Inr by simp
      then show ?thesis by blast
    next
      assume "\<exists>pre row post samples e. rows = pre @ row # post \<and>
        map read_row pre = map Inr samples \<and> read_row row = Inl e"
      then obtain pre row post samples e where
        "rows = pre @ row # post" "map read_row pre = map Inr samples" "read_row row = Inl e"
        by blast
      then have "r # rows = (r # pre) @ row # post \<and> map read_row (r # pre) = map Inr (s # samples) \<and>
        read_row row = Inl e"
        using Inr by simp
      then show ?thesis by blast
    qed
  qed
qed

lemma aggregate_error:
  assumes "rows = pre @ row # post" "map read_row pre = map Inr samples" "read_row row = Inl e"
  shows "aggregate rows = Inl e"
  using aggregate_rows_error [OF assms(2,3), of "[]" post]
  by (simp add: aggregate_def assms(1) aggregated_of_def)

lemma aggregate_Inr:
  assumes "aggregate rows = Inr ch"
  shows "\<exists>samples. map read_row rows = map Inr samples \<and> ch = chart_of samples"
  using read_rows_cases [of rows]
proof
  assume "\<exists>samples. map read_row rows = map Inr samples"
  then obtain samples where s: "map read_row rows = map Inr samples" ..
  with aggregate_samples [OF s] assms show ?thesis by auto
next
  assume "\<exists>pre row post samples e. rows = pre @ row # post \<and>
      map read_row pre = map Inr samples \<and> read_row row = Inl e"
  then obtain pre row post samples e where
    "rows = pre @ row # post" "map read_row pre = map Inr samples" "read_row row = Inl e"
    by blast
  from aggregate_error [OF this] assms show ?thesis by simp
qed

section \<open>Properties of the parser\<close>

lemma length_TABLE_COLUMNS: "length TABLE_COLUMNS = 17"
  by (simp add: TABLE_COLUMNS_def)

lemma distinct_TABLE_COLUMNS: "distinct TABLE_COLUMNS"
  by (simp add: TABLE_COLUMNS_def ascii_def)

lemma parse_lines_acc: "parse_lines rows lines = rows @ parse_lines [] lines"
proof (induction lines arbitrary: rows)
  case Nil
  then show ?case by simp
next
  case (Cons l ls)
  show ?case
    using Cons.IH [of rows] Cons.IH [of "rows @ [dict_of (zip TABLE_COLUMNS (split (strip l)))]"]
      Cons.IH [of "[dict_of (zip TABLE_COLUMNS (split (strip l)))]"]
    by (simp add: Let_def)
qed

lemma parse_lines_append:
  "parse_lines rows (xs @ ys) = parse_lines (parse_lines rows xs) ys"
  by (induction xs arbitrary: rows) (simp_all add: Let_def)

lemma parse_lines_skip:
  assumes "strip line = [] \<or> startswith_any (strip line) markers"
  shows "parse_lines rows (line # lines) = parse_lines rows lines"
  using assms by (simp add: Let_def)

lemma parse_lines_short:
  assumes "strip line \<noteq> []" "\<not> startswith_any (strip line) markers"
    "length (split (strip line)) < 17"
  shows "parse_lines rows (line # lines) = parse_lines rows lines"
  using assms by (simp add: Let_def length_TABLE_COLUMNS)

lemma parse_lines_full:
  assumes "strip line \<noteq> []" "\<not> startswith_any (strip line) markers"
    "17 \<le> length (split (strip line))"
  shows "parse_lines rows (line # lines) =
    rows @ [zip TABLE_COLUMNS (split (strip line))] @ parse_lines [] lines"
proof -
  have "distinct (map fst (zip TABLE_COLUMNS (split (strip line))))"
    using assms(3) distinct_TABLE_COLUMNS
    by (simp add: map_fst_zip_take length_TABLE_COLUMNS min_def)
  then have "dict_of (zip TABLE_COLUMNS (split (strip line))) = zip TABLE_COLUMNS (split (strip line))"
    by (rule dict_of_distinct)
  then show ?thesis
    using assms parse_lines_acc [of "rows @ [zip TABLE_COLUMNS (split (strip line))]" lines]
    by (simp add: Let_def length_TABLE_COLUMNS)
qed

lemma splitlines_sample:
  "splitlines sample_stdout =
     [ascii ''Linux 5.4.0 (host)'', [], ascii ''#  Time  UID  PID  %usr'', sample_line,
      ascii ''10:00:01  1000  17  short'', ascii ''Average:  1000  4242  1.00'']"
  by (simp add: sample_stdout_def sample_line_def ascii_def splitlines_def is_linebreak_def)

lemma split_sample_line: "split (strip sample_line) = sample_tokens"
  by (simp add: sample_line_def sample_tokens_def ascii_def strip_def split_def isspace_def)

lemma sample_line_data:
  "strip sample_line \<noteq> []" "\<not> startswith_any (strip sample_line) markers"
  by (simp_all add: sample_line_def ascii_def strip_def startswith_any_def startswith_def
      markers_def isspace_def)

text \<open>
  Claim C1.  Let \<open>line\<close> be any line of the input whose stripped text is neither empty
  nor begins with a marker, and \<open>parts\<close> its whitespace-separated tokens.  With fewer
  than 17 tokens the line adds no record: the output is that of the lines before
  followed by that of the lines after.  With 17 tokens or more it adds exactly one record,
  standing between the two; the record's keys are the 17 column names in schema order,
  and the column at position \<open>i\<close> holds the token at position \<open>i\<close>.
\<close>

theorem parse_line_record:
  assumes lines: "splitlines out = pre @ line # post"
    and data: "strip line \<noteq> []" "\<not> startswith_any (strip line) markers"
    and parts: "parts = split (strip line)"
  shows "(length parts < 17 \<longrightarrow>
            parse_pidstat_output out = parse_lines [] pre @ parse_lines [] post) \<and>
         (17 \<le> length parts \<longrightarrow>
            parse_pidstat_output out =
              parse_lines [] pre @ [zip TABLE_COLUMNS parts] @ parse_lines [] post \<and>
            map fst (zip TABLE_COLUMNS parts) = TABLE_COLUMNS \<and>
            (\<forall>i<17. map_of (zip TABLE_COLUMNS parts) (TABLE_COLUMNS ! i) = Some (parts ! i)))"
proof (intro conjI impI)
  assume short: "length parts < 17"
  have "parse_lines rows (line # post) = parse_lines rows post" for rows
    by (rule parse_lines_short [OF data]) (use short parts in simp)
  then show "parse_pidstat_output out = parse_lines [] pre @ parse_lines [] post"
    using parse_lines_acc [of "parse_lines [] pre" post]
    by (simp add: parse_pidstat_output_def lines parse_lines_append)
next
  assume long: "17 \<le> length parts"
  let ?r = "zip TABLE_COLUMNS parts"
  have "parse_lines rows (line # post) = rows @ [?r] @ parse_lines [] post" for rows
    unfolding parts by (rule parse_lines_full [OF data]) (use long parts in simp)
  then show "parse_pidstat_output out = parse_lines [] pre @ [?r] @ parse_lines [] post"
    by (simp add: parse_pidstat_output_def lines parse_lines_append)
  show "map fst ?r = TABLE_COLUMNS"
    using long by (simp add: map_fst_zip_take length_TABLE_COLUMNS)
  have "take 17 ?r = ?r"
    using long by (simp add: length_TABLE_COLUMNS)
  then have trunc: "?r = zip TABLE_COLUMNS (take 17 parts)"
    by (simp add: take_zip length_TABLE_COLUMNS)
  have "map_of ?r (TABLE_COLUMNS ! i) = Some (parts ! i)" if "i < 17" for i
  proof -
    have "map_of (zip TABLE_COLUMNS (take 17 parts)) (TABLE_COLUMNS ! i) = Some (take 17 parts ! i)"
      using that long distinct_TABLE_COLUMNS
      by (intro map_of_zip_nth) (simp_all add: length_TABLE_COLUMNS)
    then show ?thesis
      using that trunc by simp
  qed
  then show "\<forall>i<17. map_of ?r (TABLE_COLUMNS ! i) = Some (parts ! i)"
    by blast
qed

text \<open>
  The sample report has one data line of 18 tokens, which gives the one record, and one
  of 4 tokens, which gives none.
\<close>

theorem parse_line_record_witness:
  "parse_pidstat_output sample_stdout = [zip TABLE_COLUMNS sample_tokens] \<and>
   map_of (zip TABLE_COLUMNS sample_tokens) (ascii ''cpu_pct'') = Some (ascii ''3.00'') \<and>
   parse_pidstat_output (ascii ''10:00:01  1000  17  short'') = []"
proof -
  let ?pre = "[ascii ''Linux 5.4.0 (host)'', [], ascii ''#  Time  UID  PID  %usr'']"
  let ?post = "[ascii ''10:00:01  1000  17  short'', ascii ''Average:  1000  4242  1.00'']"
  let ?short = "ascii ''10:00:01  1000  17  short''"
  have lines: "splitlines sample_stdout = ?pre @ sample_line # ?post"
    by (simp add: splitlines_sample)
  have long: "17 \<le> length sample_tokens"
    by (simp add: sample_tokens_def)
  have pre: "parse_lines [] ?pre = []"
    by (simp add: ascii_def strip_def startswith_any_def startswith_def markers_def isspace_def)
  have post: "parse_lines [] ?post = []"
    by (simp add: ascii_def strip_def startswith_any_def startswith_def markers_def isspace_def
        split_def TABLE_COLUMNS_def)
  have col: "TABLE_COLUMNS ! 6 = ascii ''cpu_pct''" and tok: "sample_tokens ! 6 = ascii ''3.00''"
    by (simp_all add: TABLE_COLUMNS_def sample_tokens_def)
  have lines': "splitlines ?short = [] @ ?short # []"
    by (simp add: ascii_def splitlines_def is_linebreak_def)
  have data': "strip ?short \<noteq> []" "\<not> startswith_any (strip ?short) markers"
    by (simp_all add: ascii_def strip_def startswith_any_def startswith_def markers_def isspace_def)
  have short: "length (split (strip ?short)) < 17"
    by (simp add: ascii_def strip_def split_def isspace_def)
  from parse_line_record [OF lines sample_line_data split_sample_line [symmetric]] long pre post
  have "parse_pidstat_output sample_stdout = [zip TABLE_COLUMNS sample_tokens]"
    and "\<forall>i<17. map_of (zip TABLE_COLUMNS sample_tokens) (TABLE_COLUMNS ! i) = Some (sample_tokens ! i)"
    by simp_all
  moreover from this(2) have "map_of (zip TABLE_COLUMNS sample_tokens) (TABLE_COLUMNS ! 6) = Some (sample_tokens ! 6)"
    by simp
  moreover from parse_line_record [OF lines' data' refl] short
  have "parse_pidstat_output ?short = []"
    by simp
  ultimately show ?thesis
    by (simp add: col tok)
qed

text \<open>
  Claim C5.  A line of the input whose stripped text is empty or begins with
  \<open>Linux\<close>, \<open>#\<close> or \<open>Average:\<close> is excluded: whatever the input, the output is what
  the parser makes of the other lines alone.
\<close>

theorem marker_lines_excluded:
  assumes lines: "splitlines out = pre @ line # post"
    and excluded: "strip line = [] \<or> startswith (strip line) (ascii ''Linux'') \<or>
      startswith (strip line) (ascii ''#'') \<or> startswith (strip line) (ascii ''Average:'')"
  shows "parse_pidstat_output out = parse_lines [] (pre @ post)"
proof -
  from excluded have "strip line = [] \<or> startswith_any (strip line) markers"
    by (auto simp: startswith_any_def markers_def)
  then have "parse_lines rows (line # post) = parse_lines rows post" for rows
    by (rule parse_lines_skip)
  then show ?thesis
    by (simp add: parse_pidstat_output_def lines parse_lines_append)
qed

text \<open>
  In the sample report the comment line, indented here, is excluded; so are the banner,
  the blank line and the average line.
\<close>

theorem marker_lines_excluded_witness:
  "startswith (strip (ascii ''  #  Time  UID'')) (ascii ''#'') \<and>
   parse_pidstat_output (ascii ''  #  Time  UID\<newline>'' @ sample_line) =
     parse_lines [] [sample_line] \<and>
   parse_pidstat_output (ascii ''Linux 5.4.0 (host)\<newline>\<newline>Average:  1000  4242  1.00'') = []"
proof -
  let ?c = "ascii ''  #  Time  UID''"
  have lines: "splitlines (ascii ''  #  Time  UID\<newline>'' @ sample_line) = [] @ ?c # [sample_line]"
    by (simp add: sample_line_def ascii_def splitlines_def is_linebreak_def)
  have c: "startswith (strip ?c) (ascii ''#'')"
    by (simp add: ascii_def strip_def startswith_def isspace_def)
  let ?t = "ascii ''Linux 5.4.0 (host)\<newline>\<newline>Average:  1000  4242  1.00''"
  let ?l = "ascii ''Linux 5.4.0 (host)''"
  let ?a = "ascii ''Average:  1000  4242  1.00''"
  have lines': "splitlines ?t = [] @ ?l # [[], ?a]"
    by (simp add: ascii_def splitlines_def is_linebreak_def)
  have l: "startswith (strip ?l) (ascii ''Linux'')"
    by (simp add: ascii_def strip_def startswith_def isspace_def)
  have rest: "parse_lines [] ([] @ [[], ?a]) = []"
    by (simp add: ascii_def strip_def startswith_any_def startswith_def markers_def isspace_def)
  from marker_lines_excluded [OF lines] c
  have "parse_pidstat_output (ascii ''  #  Time  UID\<newline>'' @ sample_line) =
      parse_lines [] [sample_line]"
    by simp
  moreover from marker_lines_excluded [OF lines'] l rest
  have "parse_pidstat_output ?t = []"
    by simp
  ultimately show ?thesis
    using c by simp
qed

section \<open>Evaluation on the sample inputs\<close>

lemma bit_length_numeral:
  "bit_length (Suc 0) = 1"
  "bit_length 1 = 1"
  "bit_length (numeral k) = Suc (bit_length (numeral k div 2))"
  using bit_length_pos [of "Suc 0"] bit_length_pos [of "numeral k"] by simp_all

lemmas float_eval =
  py_float_def transform_decimal_and_space.simps c_strip_def c_isspace_def is_digit_def
  parse_number_def parse_sign_def parse_exponent_def nat_of_digits_def decimal_to_float_def
  parse_inf_or_nan_def lower_def round_to_float_def floor_log2_def rne_div_def ascii_def
  bit_length_numeral Let_def

lemmas fadd_eval =
  signed_int_def round_to_float_def floor_log2_def rne_div_def bit_length_numeral Let_def

lemmas text_eval =
  ascii_def splitlines_def is_linebreak_def strip_def split_def isspace_def
  startswith_any_def startswith_def markers_def

lemma parse_two_pid: "parse_pidstat_output two_pid_stdout = [row_4242, row_4243]"
  by (simp add: parse_pidstat_output_def two_pid_stdout_def row_4242_def row_4243_def text_eval
      TABLE_COLUMNS_def dict_of_def)

lemma read_row_4242:
  "read_row row_4242 = Inr (ascii ''10:00:01'', Finite False 5629499534213120 (- 49), Finite False 4503599627370496 (- 53))"
  by (simp add: read_row_def row_4242_def TABLE_COLUMNS_def getitem_def float_eval)

lemma read_row_4243:
  "read_row row_4243 = Inr (ascii ''10:00:01'', Finite False 5629499534213120 (- 48), Finite False 5629499534213120 (- 52))"
  by (simp add: read_row_def row_4243_def TABLE_COLUMNS_def getitem_def float_eval)

lemma read_row_late:
  "read_row row_late = Inr (ascii ''10:00:02'', Finite False 5629499534213120 (- 49), Finite False 4503599627370496 (- 53))"
  by (simp add: read_row_def row_late_def TABLE_COLUMNS_def getitem_def float_eval)

lemma float_literals:
  "py_float (ascii ''10'') = Inr (Finite False 5629499534213120 (- 49))"
  "py_float (ascii ''20'') = Inr (Finite False 5629499534213120 (- 48))"
  "py_float (ascii ''30'') = Inr (Finite False 8444249301319680 (- 48))"
  by (simp_all add: float_eval)

lemma ten_plus_twenty:
  "fadd (Finite False 5629499534213120 (- 49)) (Finite False 5629499534213120 (- 48)) =
     Finite False 8444249301319680 (- 48)"
  by (simp add: fadd_eval)

lemma half_plus_five_quarters:
  "fadd (Finite False 4503599627370496 (- 53)) (Finite False 5629499534213120 (- 52)) =
     Finite False 7881299347898368 (- 52)"
  by (simp add: fadd_eval)

declare fadd.simps [simp del]

lemma fadd_zero_eval:
  "fadd zero_float (Finite False 5629499534213120 (- 49)) = Finite False 5629499534213120 (- 49)"
  "fadd zero_float (Finite False 4503599627370496 (- 53)) = Finite False 4503599627370496 (- 53)"
  by (simp_all add: fadd_zero_float valid_float_def)

lemma row_cell_sample:
  "\<exists>c1. row_cell row_4242 = Inr c1" "\<exists>c2. row_cell row_4243 = Inr c2"
  by (simp_all add: row_cell_def row_4242_def row_4243_def TABLE_COLUMNS_def getitem_def ascii_def)

lemma aggregate_two_pid:
  "aggregate [row_4242, row_4243] =
     Inr \<lparr>labels = [ascii ''10:00:01''],
          cpu = [Finite False 8444249301319680 (- 48)],
          mem = [Finite False 7881299347898368 (- 52)]\<rparr>"
proof -
  let ?t = "ascii ''10:00:01''"
  let ?x1 = "Finite False 5629499534213120 (- 49)" and ?m1 = "Finite False 4503599627370496 (- 53)"
  let ?x2 = "Finite False 5629499534213120 (- 48)" and ?m2 = "Finite False 5629499534213120 (- 52)"
  have "map read_row [row_4242, row_4243] = map Inr [(?t, ?x1, ?m1), (?t, ?x2, ?m2)]"
    by (simp add: read_row_4242 read_row_4243)
  then have "aggregate [row_4242, row_4243] = Inr (chart_of [(?t, ?x1, ?m1), (?t, ?x2, ?m2)])"
    by (rule aggregate_samples)
  then show ?thesis
    by (simp add: chart_of_def cpu_at_def mem_at_def float_sum_def fadd_zero_eval ten_plus_twenty
        half_plus_five_quarters)
qed







lemma parse_bad: "parse_pidstat_output bad_stdout = [row_bad]"
  by (simp add: parse_pidstat_output_def bad_stdout_def row_bad_def text_eval
      TABLE_COLUMNS_def dict_of_def)

lemma read_row_bad: "read_row row_bad = Inl ValueError"
  by (simp add: read_row_def row_bad_def TABLE_COLUMNS_def getitem_def float_eval)

lemma parse_drift:
  "parse_pidstat_output drift_stdout = [row_a, row_b, row_c]"
  "parse_pidstat_output drift_stdout_rev = [row_c, row_b, row_a]"
  by (simp_all add: parse_pidstat_output_def drift_stdout_def drift_stdout_rev_def row_a_def
      row_b_def row_c_def text_eval TABLE_COLUMNS_def dict_of_def)

lemma read_row_drift:
  "read_row row_a = Inr (ascii ''10:00:01'', Finite False 7205759403792794 (- 56), zero_float)"
  "read_row row_b = Inr (ascii ''10:00:01'', Finite False 7205759403792794 (- 55), zero_float)"
  "read_row row_c = Inr (ascii ''10:00:01'', Finite False 5404319552844595 (- 54), zero_float)"
  by (simp_all add: read_row_def row_a_def row_b_def row_c_def TABLE_COLUMNS_def getitem_def
      float_eval zero_float_def)

lemma drift_sums:
  "fadd (Finite False 7205759403792794 (- 56)) (Finite False 7205759403792794 (- 55)) =
     Finite False 5404319552844596 (- 54)"
  "fadd (Finite False 5404319552844596 (- 54)) (Finite False 5404319552844595 (- 54)) =
     Finite False 5404319552844596 (- 53)"
  "fadd (Finite False 5404319552844595 (- 54)) (Finite False 7205759403792794 (- 55)) =
     Finite False 4503599627370496 (- 53)"
  "fadd (Finite False 4503599627370496 (- 53)) (Finite False 7205759403792794 (- 56)) =
     Finite False 5404319552844595 (- 53)"
  by (simp_all add: fadd.simps fadd_eval)

lemma drift_zero:
  "fadd zero_float (Finite False 7205759403792794 (- 56)) = Finite False 7205759403792794 (- 56)"
  "fadd zero_float (Finite False 5404319552844595 (- 54)) = Finite False 5404319552844595 (- 54)"
  by (simp_all add: fadd_zero_float valid_float_def)

lemma fadd_zero_zero: "fadd zero_float zero_float = zero_float"
proof -
  have "valid_float zero_float" by (simp add: valid_float_def zero_float_def)
  from fadd_zero_float [OF this] show ?thesis by simp
qed

section \<open>Properties of the aggregator\<close>

lemma first_index_Cons:
  "first_index (x # xs) y = (if y = x then 0 else Suc (first_index xs y))"
  by (auto simp: first_index_def)

lemma sorted_first_seen:
  "sorted_wrt (\<lambda>a b. first_index xs a < first_index xs b) (first_seen xs)"
proof (induction xs)
  case Nil
  then show ?case by simp
next
  case (Cons x xs)
  let ?F = "removeAll x (first_seen xs)"
  have F: "?F = filter (\<lambda>y. x \<noteq> y) (first_seen xs)"
    by (simp add: removeAll_filter_not_eq)
  have "sorted_wrt (\<lambda>a b. first_index xs a < first_index xs b) ?F"
    unfolding F using Cons.IH by (rule sorted_wrt_filter)
  then have "sorted_wrt (\<lambda>a b. first_index (x # xs) a < first_index (x # xs) b) ?F"
    by (rule sorted_wrt_mono_rel [rotated]) (auto simp: first_index_Cons)
  moreover have "\<forall>y\<in>set ?F. first_index (x # xs) x < first_index (x # xs) y"
    by (auto simp: first_index_Cons)
  ultimately show ?case by simp
qed

text \<open>
  Claim C3.  When the aggregation succeeds, every row has been read, and the chart has one
  point per distinct timestamp: its labels are distinct and are exactly the timestamps of
  the rows, and the CPU value and the memory value at a label are the sums of the CPU
  values and of the memory values of the rows with that timestamp (as floats, added in
  input order from \<open>0.0\<close>).  In particular two rows at one timestamp whose CPU values
  read as 10 and 20 give exactly one point, whose CPU value is what 30 reads as.
\<close>

theorem aggregate_sums:
  "(aggregate rows = Inr ch \<longrightarrow>
      (\<exists>samples. map read_row rows = map Inr samples \<and>
         distinct (labels ch) \<and> set (labels ch) = set (map fst samples) \<and>
         length (cpu ch) = length (labels ch) \<and> length (mem ch) = length (labels ch) \<and>
         (\<forall>i<length (labels ch).
            cpu ch ! i = float_sum (cpu_at samples (labels ch ! i)) \<and>
            mem ch ! i = float_sum (mem_at samples (labels ch ! i))))) \<and>
   (read_row r1 = Inr (t, x1, m1) \<and> read_row r2 = Inr (t, x2, m2) \<and>
    Inr x1 = py_float (ascii ''10'') \<and> Inr x2 = py_float (ascii ''20'') \<longrightarrow>
      (\<exists>ch2. aggregate [r1, r2] = Inr ch2 \<and> labels ch2 = [t] \<and>
         map Inr (cpu ch2) = [py_float (ascii ''30'')]))"
proof (intro conjI impI)
  assume "aggregate rows = Inr ch"
  then obtain samples where s: "map read_row rows = map Inr samples" and ch: "ch = chart_of samples"
    using aggregate_Inr by blast
  show "\<exists>samples. map read_row rows = map Inr samples \<and>
         distinct (labels ch) \<and> set (labels ch) = set (map fst samples) \<and>
         length (cpu ch) = length (labels ch) \<and> length (mem ch) = length (labels ch) \<and>
         (\<forall>i<length (labels ch).
            cpu ch ! i = float_sum (cpu_at samples (labels ch ! i)) \<and>
            mem ch ! i = float_sum (mem_at samples (labels ch ! i)))"
    using s by (intro exI [of _ samples]) (simp add: ch chart_of_def)
next
  assume a: "read_row r1 = Inr (t, x1, m1) \<and> read_row r2 = Inr (t, x2, m2) \<and>
    Inr x1 = py_float (ascii ''10'') \<and> Inr x2 = py_float (ascii ''20'')"
  then have x: "x1 = Finite False 5629499534213120 (- 49)"
    "x2 = Finite False 5629499534213120 (- 48)"
    by (simp_all add: float_literals)
  have "map read_row [r1, r2] = map Inr [(t, x1, m1), (t, x2, m2)]"
    using a by simp
  then have agg: "aggregate [r1, r2] = Inr (chart_of [(t, x1, m1), (t, x2, m2)])"
    by (rule aggregate_samples)
  have lab: "labels (chart_of [(t, x1, m1), (t, x2, m2)]) = [t]"
    by (simp add: chart_of_def)
  have "cpu (chart_of [(t, x1, m1), (t, x2, m2)]) = [fadd (fadd zero_float x1) x2]"
    by (simp add: chart_of_def cpu_at_def float_sum_def)
  then have "map Inr (cpu (chart_of [(t, x1, m1), (t, x2, m2)])) = [py_float (ascii ''30'')]"
    by (simp add: x fadd_zero_eval ten_plus_twenty float_literals)
  with agg lab show "\<exists>ch2. aggregate [r1, r2] = Inr ch2 \<and> labels ch2 = [t] \<and>
         map Inr (cpu ch2) = [py_float (ascii ''30'')]"
    by (intro exI [of _ "chart_of [(t, x1, m1), (t, x2, m2)]"]) simp
qed

text \<open>
  The report for two processes: one label, CPU 10 + 20 = 30, memory 0.5 + 1.25 = 1.75.
\<close>

theorem aggregate_sums_witness:
  "aggregate (parse_pidstat_output two_pid_stdout) =
     Inr \<lparr>labels = [ascii ''10:00:01''],
          cpu = [Finite False 8444249301319680 (- 48)],
          mem = [Finite False 7881299347898368 (- 52)]\<rparr> \<and>
   py_float (ascii ''30'') = Inr (Finite False 8444249301319680 (- 48)) \<and>
   py_float (ascii ''1.75'') = Inr (Finite False 7881299347898368 (- 52))"
proof -
  let ?t = "ascii ''10:00:01''"
  let ?x1 = "Finite False 5629499534213120 (- 49)" and ?m1 = "Finite False 4503599627370496 (- 53)"
  let ?x2 = "Finite False 5629499534213120 (- 48)" and ?m2 = "Finite False 5629499534213120 (- 52)"
  have r: "read_row row_4242 = Inr (?t, ?x1, ?m1) \<and> read_row row_4243 = Inr (?t, ?x2, ?m2) \<and>
      Inr ?x1 = py_float (ascii ''10'') \<and> Inr ?x2 = py_float (ascii ''20'')"
    by (simp add: read_row_4242 read_row_4243 float_literals)
  have "\<exists>ch2. aggregate [row_4242, row_4243] = Inr ch2 \<and> labels ch2 = [?t] \<and>
      map Inr (cpu ch2) = [py_float (ascii ''30'')]"
    by (rule aggregate_sums [THEN conjunct2, THEN mp, OF r])
  then obtain ch2 where ch2: "aggregate [row_4242, row_4243] = Inr ch2" "labels ch2 = [?t]"
    "map Inr (cpu ch2) = [py_float (ascii ''30'')]"
    by (elim exE conjE)
  note aggregate_sums [THEN conjunct1, THEN mp, OF ch2(1)]
  then obtain samples where s: "map read_row [row_4242, row_4243] = map Inr samples"
    "length (mem ch2) = length (labels ch2)"
    and all: "\<forall>i<length (labels ch2).
      cpu ch2 ! i = float_sum (cpu_at samples (labels ch2 ! i)) \<and>
      mem ch2 ! i = float_sum (mem_at samples (labels ch2 ! i))"
    by (elim exE conjE)
  have rr: "map read_row [row_4242, row_4243] = map Inr [(?t, ?x1, ?m1), (?t, ?x2, ?m2)]"
    by (simp add: read_row_4242 read_row_4243)
  from s(1) [unfolded rr] have samples: "samples = [(?t, ?x1, ?m1), (?t, ?x2, ?m2)]"
    by (simp only: inj_map_eq_map [OF inj_Inr])
  from all have "mem ch2 ! 0 = float_sum (mem_at samples ?t)"
    by (simp add: ch2(2))
  then have "mem ch2 ! 0 = Finite False 7881299347898368 (- 52)"
    by (simp add: samples mem_at_def float_sum_def fadd_zero_eval half_plus_five_quarters)
  moreover from s(2) have "length (mem ch2) = 1" by (simp add: ch2(2))
  ultimately have m: "mem ch2 = [Finite False 7881299347898368 (- 52)]"
    by (cases "mem ch2") simp_all
  from ch2(3) have c: "cpu ch2 = [Finite False 8444249301319680 (- 48)]"
    by (simp add: float_literals map_eq_Cons_conv)
  have "ch2 = \<lparr>labels = [?t], cpu = [Finite False 8444249301319680 (- 48)],
      mem = [Finite False 7881299347898368 (- 52)]\<rparr>"
    using ch2(2) c m by simp
  moreover have "py_float (ascii ''1.75'') = Inr (Finite False 7881299347898368 (- 52))"
    by (simp add: float_eval)
  ultimately show ?thesis
    using ch2(1) by (simp add: parse_two_pid float_literals)
qed

text \<open>
  Claim C4.  The labels of the chart are the timestamps of the rows in the order of their
  first occurrence: each timestamp once, and one label before another when the first row
  with the one comes before the first row with the other.
\<close>

theorem aggregate_first_seen_order:
  assumes "aggregate rows = Inr ch"
  shows "\<exists>samples. map read_row rows = map Inr samples \<and>
           labels ch = first_seen (map fst samples) \<and>
           distinct (labels ch) \<and> set (labels ch) = set (map fst samples) \<and>
           sorted_wrt (\<lambda>a b. first_index (map fst samples) a < first_index (map fst samples) b)
             (labels ch)"
proof -
  from assms obtain samples where s: "map read_row rows = map Inr samples"
    and ch: "ch = chart_of samples"
    using aggregate_Inr by blast
  have "labels ch = first_seen (map fst samples)"
    by (simp add: ch chart_of_def)
  with s sorted_first_seen [of "map fst samples"] show ?thesis
    by (intro exI [of _ samples]) simp
qed

text \<open>
  Three rows with the timestamps 10:00:02, 10:00:01, 10:00:02: the labels keep the later
  time first, as the rows have it.
\<close>

theorem aggregate_first_seen_order_witness:
  "aggregate [row_late, row_4242, row_late] =
     Inr (chart_of
       [(ascii ''10:00:02'', Finite False 5629499534213120 (- 49), Finite False 4503599627370496 (- 53)),
        (ascii ''10:00:01'', Finite False 5629499534213120 (- 49), Finite False 4503599627370496 (- 53)),
        (ascii ''10:00:02'', Finite False 5629499534213120 (- 49), Finite False 4503599627370496 (- 53))]) \<and>
   labels (chart_of
       [(ascii ''10:00:02'', Finite False 5629499534213120 (- 49), Finite False 4503599627370496 (- 53)),
        (ascii ''10:00:01'', Finite False 5629499534213120 (- 49), Finite False 4503599627370496 (- 53)),
        (ascii ''10:00:02'', Finite False 5629499534213120 (- 49), Finite False 4503599627370496 (- 53))]) =
     [ascii ''10:00:02'', ascii ''10:00:01'']"
proof -
  let ?x = "Finite False 5629499534213120 (- 49)" and ?m = "Finite False 4503599627370496 (- 53)"
  let ?ss = "[(ascii ''10:00:02'', ?x, ?m), (ascii ''10:00:01'', ?x, ?m), (ascii ''10:00:02'', ?x, ?m)]"
  have rr: "map read_row [row_late, row_4242, row_late] = map Inr ?ss"
    by (simp add: read_row_late read_row_4242)
  then have agg: "aggregate [row_late, row_4242, row_late] = Inr (chart_of ?ss)"
    by (rule aggregate_samples)
  from aggregate_first_seen_order [OF agg]
  obtain samples where s: "map read_row [row_late, row_4242, row_late] = map Inr samples"
    and l: "labels (chart_of ?ss) = first_seen (map fst samples)"
    by (elim exE conjE)
  from s [unfolded rr] have "samples = ?ss"
    by (simp only: inj_map_eq_map [OF inj_Inr])
  with l have "labels (chart_of ?ss) = [ascii ''10:00:02'', ascii ''10:00:01'']"
    by (simp add: ascii_def)
  with agg show ?thesis by simp
qed

section \<open>Properties of the renderer\<close>











lemma join_Nil [simp]: "join sep [] = []"
  by (simp add: join_def)



lemma build_html_Inr:
  assumes "build_html float_repr rows raw_output pid interval n title = Inr doc"
  shows "\<exists>ch cells. aggregate rows = Inr ch \<and> map_exn row_cell rows = Inr cells \<and>
     doc = page_title @ html_escape title @ page_style @ html_escape title @
           page_target @ (case pid of None \<Rightarrow> ascii ''All PIDs'' | Some p \<Rightarrow> ascii ''PID '' @ str_int p) @
           page_every @ str_int interval @ page_for @ str_int n @
           page_table @ join (ascii ''\<newline>'') cells @
           page_raw @ html_escape raw_output @
           page_script @ json_dumps float_repr ch @ page_charts"
  using assms by (auto simp: build_html_def Let_def split: sum.splits)

lemma build_html_ok:
  assumes "aggregate rows = Inr ch" "map_exn row_cell rows = Inr cells"
  shows "build_html float_repr rows raw_output pid interval n title =
     Inr (page_title @ html_escape title @ page_style @ html_escape title @
           page_target @ (case pid of None \<Rightarrow> ascii ''All PIDs'' | Some p \<Rightarrow> ascii ''PID '' @ str_int p) @
           page_every @ str_int interval @ page_for @ str_int n @
           page_table @ join (ascii ''\<newline>'') cells @
           page_raw @ html_escape raw_output @
           page_script @ json_dumps float_repr ch @ page_charts)"
  using assms by (simp add: build_html_def Let_def)






text \<open>
  Claim C7.  A report that \<open>build_html\<close> returns ends with the chart-data literal and
  the fixed script text; the literal holds the three arrays, of the labels, of the CPU
  series and of the memory series of the chart, and the three have the same length.
\<close>

theorem chart_arrays_equal_length:
  assumes "build_html float_repr rows raw_output pid interval n title = Inr doc"
  shows "\<exists>ch before.
           aggregate rows = Inr ch \<and>
           doc = before @
             ascii ''{'' @
             json_string (ascii ''labels'') @ ascii '': '' @
               json_list (map json_string (labels ch)) @ ascii '', '' @
             json_string (ascii ''cpu'') @ ascii '': '' @
               json_list (map (json_float float_repr) (cpu ch)) @ ascii '', '' @
             json_string (ascii ''mem'') @ ascii '': '' @
               json_list (map (json_float float_repr) (mem ch)) @
             ascii ''}'' @ page_charts \<and>
           length (map json_string (labels ch)) = length (map (json_float float_repr) (cpu ch)) \<and>
           length (map (json_float float_repr) (cpu ch)) =
             length (map (json_float float_repr) (mem ch)) \<and>
           length (labels ch) = length (cpu ch) \<and> length (cpu ch) = length (mem ch)"
proof -
  from build_html_Inr [OF assms] obtain ch cells where
    agg: "aggregate rows = Inr ch" and
    doc: "doc = page_title @ html_escape title @ page_style @ html_escape title @
           page_target @ (case pid of None \<Rightarrow> ascii ''All PIDs'' | Some p \<Rightarrow> ascii ''PID '' @ str_int p) @
           page_every @ str_int interval @ page_for @ str_int n @
           page_table @ join (ascii ''\<newline>'') cells @
           page_raw @ html_escape raw_output @
           page_script @ json_dumps float_repr ch @ page_charts"
    by (elim exE conjE)
  from aggregate_Inr [OF agg] obtain samples where "ch = chart_of samples"
    by blast
  then have len: "length (labels ch) = length (cpu ch)" "length (cpu ch) = length (mem ch)"
    by (simp_all add: chart_of_def)
  let ?before = "page_title @ html_escape title @ page_style @ html_escape title @
           page_target @ (case pid of None \<Rightarrow> ascii ''All PIDs'' | Some p \<Rightarrow> ascii ''PID '' @ str_int p) @
           page_every @ str_int interval @ page_for @ str_int n @
           page_table @ join (ascii ''\<newline>'') cells @
           page_raw @ html_escape raw_output @ page_script"
  have "doc = ?before @ json_dumps float_repr ch @ page_charts"
    by (simp add: doc)
  then show ?thesis
    using agg len
    by (intro exI [of _ ch] exI [of _ ?before]) (simp add: json_dumps_def)
qed

text \<open>
  The report for two processes, whatever the formatting of floats: three arrays of one
  element each.
\<close>

theorem chart_arrays_equal_length_witness:
  "\<forall>float_repr. \<exists>doc before.
      build_html float_repr (parse_pidstat_output two_pid_stdout) two_pid_stdout None 1 5
        (ascii ''report'') = Inr doc \<and>
      doc = before @
        ascii ''{'' @
        json_string (ascii ''labels'') @ ascii '': '' @
          json_list [json_string (ascii ''10:00:01'')] @ ascii '', '' @
        json_string (ascii ''cpu'') @ ascii '': '' @
          json_list [float_repr (Finite False 8444249301319680 (- 48))] @ ascii '', '' @
        json_string (ascii ''mem'') @ ascii '': '' @
          json_list [float_repr (Finite False 7881299347898368 (- 52))] @
        ascii ''}'' @ page_charts"
proof
  fix float_repr
  let ?rows = "[row_4242, row_4243]"
  from row_cell_sample obtain c1 c2 where "row_cell row_4242 = Inr c1" "row_cell row_4243 = Inr c2"
    by blast
  then have cells: "map_exn row_cell ?rows = Inr [c1, c2]" by simp
  from build_html_ok [OF aggregate_two_pid cells]
  obtain doc where doc: "build_html float_repr ?rows two_pid_stdout None 1 5 (ascii ''report'') = Inr doc"
    by blast
  from chart_arrays_equal_length [OF doc] obtain ch before where
    ch: "aggregate ?rows = Inr ch" and
    d: "doc = before @
             ascii ''{'' @
             json_string (ascii ''labels'') @ ascii '': '' @
               json_list (map json_string (labels ch)) @ ascii '', '' @
             json_string (ascii ''cpu'') @ ascii '': '' @
               json_list (map (json_float float_repr) (cpu ch)) @ ascii '', '' @
             json_string (ascii ''mem'') @ ascii '': '' @
               json_list (map (json_float float_repr) (mem ch)) @
             ascii ''}'' @ page_charts"
    by (elim exE conjE)
  from ch aggregate_two_pid have "ch = \<lparr>labels = [ascii ''10:00:01''],
          cpu = [Finite False 8444249301319680 (- 48)],
          mem = [Finite False 7881299347898368 (- 52)]\<rparr>"
    by simp
  with d have "doc = before @
        ascii ''{'' @
        json_string (ascii ''labels'') @ ascii '': '' @
          json_list [json_string (ascii ''10:00:01'')] @ ascii '', '' @
        json_string (ascii ''cpu'') @ ascii '': '' @
          json_list [float_repr (Finite False 8444249301319680 (- 48))] @ ascii '', '' @
        json_string (ascii ''mem'') @ ascii '': '' @
          json_list [float_repr (Finite False 7881299347898368 (- 52))] @
        ascii ''}'' @ page_charts"
    by (simp add: json_float_def)
  with doc show "\<exists>doc before.
      build_html float_repr (parse_pidstat_output two_pid_stdout) two_pid_stdout None 1 5
        (ascii ''report'') = Inr doc \<and>
      doc = before @
        ascii ''{'' @
        json_string (ascii ''labels'') @ ascii '': '' @
          json_list [json_string (ascii ''10:00:01'')] @ ascii '', '' @
        json_string (ascii ''cpu'') @ ascii '': '' @
          json_list [float_repr (Finite False 8444249301319680 (- 48))] @ ascii '', '' @
        json_string (ascii ''mem'') @ ascii '': '' @
          json_list [float_repr (Finite False 7881299347898368 (- 52))] @
        ascii ''}'' @ page_charts"
    unfolding parse_two_pid by (intro exI [of _ doc] exI [of _ before] conjI)
qed

section \<open>Properties of the sampler\<close>

lemma digits_of_digits: "digits_of n \<noteq> [] \<and> list_all is_digit (digits_of n)"
proof (induction n rule: digits_of.induct)
  case (1 n)
  show ?case
  proof (cases "n < 10")
    case True
    then show ?thesis by (simp add: digits_of.simps [of n] is_digit_def)
  next
    case False
    have "n mod 10 < 10" by simp
    then have "is_digit (48 + n mod 10)" by (simp add: is_digit_def)
    with "1.IH" False show ?thesis by (simp add: digits_of.simps [of n])
  qed
qed

lemma nat_of_digits_snoc: "nat_of_digits (ds @ [d]) = 10 * nat_of_digits ds + (d - 48)"
  by (simp add: nat_of_digits_def)

lemma nat_of_digits_of: "nat_of_digits (digits_of n) = n"
proof (induction n rule: digits_of.induct)
  case (1 n)
  show ?case
  proof (cases "n < 10")
    case True
    then show ?thesis by (simp add: digits_of.simps [of n] nat_of_digits_def)
  next
    case False
    with "1.IH" show ?thesis
      by (simp add: digits_of.simps [of n] nat_of_digits_snoc)
  qed
qed

lemma digits_of_numeral:
  "digits_of 0 = [48]"
  "digits_of (Suc 0) = [49]"
  "digits_of (numeral k) =
     (if numeral k < (10::nat) then [48 + numeral k]
      else digits_of (numeral k div 10) @ [48 + numeral k mod 10])"
  by (simp_all add: digits_of.simps [of 0] digits_of.simps [of "Suc 0"]
      digits_of.simps [of "numeral k"])

text \<open>
  Claim C9.  \<open>run_pidstat\<close> runs exactly one command: \<open>pidstat -durh -p\<close>, then the
  process selector, the interval and the count; the selector is the text \<open>ALL\<close> when no
  pid is given and the pid otherwise.  Pid, interval and count are written in decimal: a
  minus sign for a negative number, then digits whose value is the number's absolute
  value.  The function returns the text of the command's standard output (when the exit
  status is 0; otherwise it raises).
\<close>

theorem run_pidstat_command:
  "run_pidstat run None interval n =
     (if returncode (run [ascii ''pidstat'', ascii ''-durh'', ascii ''-p'', ascii ''ALL'',
                         str_int interval, str_int n]) \<noteq> 0
      then Inl CalledProcessError
      else Inr (stdout (run [ascii ''pidstat'', ascii ''-durh'', ascii ''-p'', ascii ''ALL'',
                             str_int interval, str_int n]))) \<and>
   run_pidstat run (Some p) interval n =
     (if returncode (run [ascii ''pidstat'', ascii ''-durh'', ascii ''-p'', str_int p,
                         str_int interval, str_int n]) \<noteq> 0
      then Inl CalledProcessError
      else Inr (stdout (run [ascii ''pidstat'', ascii ''-durh'', ascii ''-p'', str_int p,
                             str_int interval, str_int n]))) \<and>
   (\<exists>ds. str_int k = (if k < 0 then 45 # ds else ds) \<and> ds \<noteq> [] \<and> list_all is_digit ds \<and>
         int (nat_of_digits ds) = \<bar>k\<bar>)"
proof (intro conjI)
  show "\<exists>ds. str_int k = (if k < 0 then 45 # ds else ds) \<and> ds \<noteq> [] \<and> list_all is_digit ds \<and>
         int (nat_of_digits ds) = \<bar>k\<bar>"
    using digits_of_digits [of "nat \<bar>k\<bar>"] nat_of_digits_of [of "nat \<bar>k\<bar>"]
    by (intro exI [of _ "digits_of (nat \<bar>k\<bar>)"]) (auto simp: str_int_def)
qed (simp_all add: run_pidstat_def Let_def)

text \<open>With the command that prints its command line.\<close>

theorem run_pidstat_command_witness:
  "run_pidstat echo_run None 1 5 = Inr (ascii ''pidstat -durh -p ALL 1 5'') \<and>
   run_pidstat echo_run (Some 4242) 2 10 = Inr (ascii ''pidstat -durh -p 4242 2 10'') \<and>
   run_pidstat (\<lambda>command. \<lparr>returncode = 1, stdout = []\<rparr>) None 1 5 = Inl CalledProcessError"
proof -
  have s: "str_int 1 = ascii ''1''" "str_int 5 = ascii ''5''" "str_int 2 = ascii ''2''"
    "str_int 10 = ascii ''10''" "str_int 4242 = ascii ''4242''"
    by (simp_all add: str_int_def digits_of_numeral ascii_def)
  from run_pidstat_command [of echo_run 1 5 4242 0]
  have "run_pidstat echo_run None 1 5 = Inr (ascii ''pidstat -durh -p ALL 1 5'')"
    by (simp add: s echo_run_def join_def ascii_def)
  moreover from run_pidstat_command [of echo_run 2 10 4242 0]
  have "run_pidstat echo_run (Some 4242) 2 10 = Inr (ascii ''pidstat -durh -p 4242 2 10'')"
    by (simp add: s echo_run_def join_def ascii_def)
  moreover from run_pidstat_command [of "\<lambda>command. \<lparr>returncode = 1, stdout = []\<rparr>" 1 5 0 0]
  have "run_pidstat (\<lambda>command. \<lparr>returncode = 1, stdout = []\<rparr>) None 1 5 = Inl CalledProcessError"
    by simp
  ultimately show ?thesis by simp
qed

section \<open>Properties of the command-line program\<close>

text \<open>
  The records of the parser have all the columns: reading one fails only in \<open>float\<close>.
\<close>

lemma parse_lines_shape:
  "r \<in> set (parse_lines rows lines) \<Longrightarrow>
   r \<in> set rows \<or> (\<exists>parts. 17 \<le> length parts \<and> r = zip TABLE_COLUMNS parts)"
proof (induction lines arbitrary: rows)
  case Nil
  then show ?case by simp
next
  case (Cons line lines)
  let ?parts = "split (strip line)"
  show ?case
  proof (cases "strip line = [] \<or> startswith_any (strip line) markers \<or> length ?parts < 17")
    case True
    with Cons.prems have "r \<in> set (parse_lines rows lines)"
      by (auto simp: Let_def length_TABLE_COLUMNS split: if_splits)
    then show ?thesis by (rule Cons.IH)
  next
    case False
    then have d: "strip line \<noteq> []" "\<not> startswith_any (strip line) markers" "17 \<le> length ?parts"
      by simp_all
    from Cons.prems have "r \<in> set (rows @ [zip TABLE_COLUMNS ?parts] @ parse_lines [] lines)"
      by (simp only: parse_lines_full [OF d])
    then consider "r \<in> set rows" | "r = zip TABLE_COLUMNS ?parts" | "r \<in> set (parse_lines [] lines)"
      by auto
    then show ?thesis
    proof cases
      case 1
      then show ?thesis by simp
    next
      case 2
      with d(3) show ?thesis by blast
    next
      case 3
      from Cons.IH [OF 3] show ?thesis by simp
    qed
  qed
qed

lemma parsed_row_keys:
  assumes "r \<in> set (parse_pidstat_output out)" "k \<in> set TABLE_COLUMNS"
  shows "\<exists>v. map_of r k = Some v"
proof -
  from assms(1) obtain parts where p: "17 \<le> length parts" "r = zip TABLE_COLUMNS parts"
    using parse_lines_shape [of r "[]"] by (auto simp: parse_pidstat_output_def)
  have "k \<in> fst ` set r"
  proof -
    have "map fst r = TABLE_COLUMNS"
      using p by (simp add: map_fst_zip_take length_TABLE_COLUMNS)
    then have "set (map fst r) = set TABLE_COLUMNS" by simp
    with assms(2) show ?thesis by simp
  qed
  then have "k \<in> dom (map_of r)"
    by (simp only: dom_map_of_conv_image_fst)
  then show ?thesis by (rule domD)
qed

lemma parsed_row_read:
  assumes "r \<in> set (parse_pidstat_output out)"
  shows "read_row r = Inl ValueError \<or> (\<exists>s. read_row r = Inr s)"
proof -
  have cols: "ascii ''time'' \<in> set TABLE_COLUMNS" "ascii ''cpu_pct'' \<in> set TABLE_COLUMNS"
    "ascii ''mem_pct'' \<in> set TABLE_COLUMNS"
    by (simp_all add: TABLE_COLUMNS_def)
  from parsed_row_keys [OF assms cols(1)] obtain t where "map_of r (ascii ''time'') = Some t" ..
  moreover from parsed_row_keys [OF assms cols(2)] obtain c where
    "map_of r (ascii ''cpu_pct'') = Some c" ..
  moreover from parsed_row_keys [OF assms cols(3)] obtain m where
    "map_of r (ascii ''mem_pct'') = Some m" ..
  ultimately show ?thesis
    using py_float_error
    by (auto simp: read_row_def getitem_def split: sum.splits)
qed



lemma unreadable_parsed_rows:
  assumes rows: "rows = parse_pidstat_output out"
    and bad: "r \<in> set rows" "read_row r = Inl ValueError"
  shows "aggregate rows = Inl ValueError"
proof -
  from read_rows_cases [of rows] show ?thesis
  proof
    assume "\<exists>samples. map read_row rows = map Inr samples"
    then obtain samples where "map read_row rows = map Inr samples" ..
    then have "set (map read_row rows) = set (map Inr samples)" by simp
    moreover have "read_row r \<in> set (map read_row rows)"
      using bad(1) by simp
    ultimately have "read_row r \<in> set (map Inr samples)" by simp
    with bad(2) show ?thesis by auto
  next
    assume "\<exists>pre row post samples e. rows = pre @ row # post \<and>
      map read_row pre = map Inr samples \<and> read_row row = Inl e"
    then obtain pre row post samples e where
      f: "rows = pre @ row # post" "map read_row pre = map Inr samples" "read_row row = Inl e"
      by blast
    have "row \<in> set (parse_pidstat_output out)"
      using f(1) rows by simp
    from parsed_row_read [OF this] f(3) have "e = ValueError" by auto
    with aggregate_error [OF f] show ?thesis by simp
  qed
qed

lemma readable_rows:
  assumes "\<forall>r\<in>set rows. \<exists>s. read_row r = Inr s"
  shows "\<exists>samples. map read_row rows = map Inr samples"
  using assms
proof (induction rows)
  case Nil
  then show ?case by simp
next
  case (Cons r rows)
  then obtain s samples where "read_row r = Inr s" "map read_row rows = map Inr samples"
    by auto
  then have "map read_row (r # rows) = map Inr (s # samples)" by simp
  then show ?case by blast
qed


lemma bad_token_read_row:
  assumes "map_of r (ascii ''time'') = Some t"
    "map_of r (ascii ''cpu_pct'') = Some c" "map_of r (ascii ''mem_pct'') = Some m"
    "py_float c = Inl ValueError \<or> py_float m = Inl ValueError"
  shows "read_row r = Inl ValueError"
  using assms py_float_error [of c]
  by (cases "py_float c") (auto simp: read_row_def getitem_def)

lemma build_html_aggregate_error:
  "aggregate rows = Inl e \<Longrightarrow>
   build_html float_repr rows raw_output pid interval n title = Inl e"
  by (simp add: build_html_def)

lemma main_unfold:
  "main rt a w =
     (let res = subprocess_run rt
            [ascii ''pidstat'', ascii ''-durh'', ascii ''-p'',
             (case arg_pid a of None \<Rightarrow> ascii ''ALL'' | Some p \<Rightarrow> str_int p),
             str_int (arg_interval a), str_int (arg_count a)];
          rows = parse_pidstat_output (stdout res)
      in if returncode res \<noteq> 0 then (Inl CalledProcessError, w)
         else if rows = [] then
           (Inl (SystemExit (ascii ''No pidstat rows parsed; check PID and pidstat output'')), w)
         else
           (case build_html (float_repr_of rt) rows (stdout res) (arg_pid a) (arg_interval a)
                   (arg_count a) (arg_title a) of
              Inl e \<Rightarrow> (Inl e, w)
            | Inr html_report \<Rightarrow>
                (Inr (),
                 print_line (ascii ''Report written to '' @ path_resolve rt (arg_output a))
                   (write_report html_report (arg_output a) w))))"
  by (simp add: main_def run_pidstat_def Let_def)

text \<open>
  Claim C10.  \<open>build_html\<close> converts the \<open>cpu_pct\<close> and \<open>mem_pct\<close> fields with
  \<open>float\<close> and nothing guards the conversion: when a record of the parser has a seventh
  or a thirteenth token that \<open>float\<close> refuses, \<open>build_html\<close> raises \<open>ValueError\<close>
  whatever its other arguments, and \<open>main\<close> lets it through although the command has
  exited with status 0 and rows were parsed.  Such a record list exists: the parser
  accepts a line of 17 or more tokens of any kind.
\<close>

theorem unguarded_float_conversion:
  "(rows = parse_pidstat_output out \<and> r \<in> set rows \<and>
    map_of r (ascii ''cpu_pct'') = Some c \<and> map_of r (ascii ''mem_pct'') = Some m \<and>
    (py_float c = Inl ValueError \<or> py_float m = Inl ValueError) \<longrightarrow>
      build_html float_repr rows raw_output pid interval n title = Inl ValueError \<and>
      main (runtime_printing out float_repr) a w = (Inl ValueError, w)) \<and>
   (\<exists>line. 17 \<le> length (split (strip line)) \<and> parse_pidstat_output line \<noteq> [] \<and>
      (\<forall>float_repr raw_output pid interval n title.
         build_html float_repr (parse_pidstat_output line) raw_output pid interval n title =
           Inl ValueError))"
proof (intro conjI impI)
  assume a: "rows = parse_pidstat_output out \<and> r \<in> set rows \<and>
    map_of r (ascii ''cpu_pct'') = Some c \<and> map_of r (ascii ''mem_pct'') = Some m \<and>
    (py_float c = Inl ValueError \<or> py_float m = Inl ValueError)"
  then have r: "r \<in> set (parse_pidstat_output out)" by blast
  have "ascii ''time'' \<in> set TABLE_COLUMNS" by (simp add: TABLE_COLUMNS_def)
  from parsed_row_keys [OF r this] obtain t where "map_of r (ascii ''time'') = Some t" ..
  with a have "read_row r = Inl ValueError"
    by (intro bad_token_read_row [of r t c m]) blast+
  with a have agg: "aggregate rows = Inl ValueError"
    by (intro unreadable_parsed_rows [of rows out r]) blast+
  then show "build_html float_repr rows raw_output pid interval n title = Inl ValueError"
    by (rule build_html_aggregate_error)
  from a have rows: "parse_pidstat_output out = rows" "rows \<noteq> []"
    by auto
  show "main (runtime_printing out float_repr) a w = (Inl ValueError, w)"
    unfolding main_unfold
    by (simp add: runtime_printing_def rows build_html_aggregate_error [OF agg])
next
  have "17 \<le> length (split (strip bad_stdout))"
    by (simp add: bad_stdout_def text_eval)
  moreover have "parse_pidstat_output bad_stdout \<noteq> []"
    by (simp add: parse_bad)
  moreover have "aggregate [row_bad] = Inl ValueError"
    using aggregate_error [of "[row_bad]" "[]" row_bad "[]" "[]" ValueError]
    by (simp add: read_row_bad)
  then have "\<forall>float_repr raw_output pid interval n title.
      build_html float_repr (parse_pidstat_output bad_stdout) raw_output pid interval n title =
        Inl ValueError"
    by (simp add: parse_bad build_html_aggregate_error)
  ultimately show "\<exists>line. 17 \<le> length (split (strip line)) \<and> parse_pidstat_output line \<noteq> [] \<and>
      (\<forall>float_repr raw_output pid interval n title.
         build_html float_repr (parse_pidstat_output line) raw_output pid interval n title =
           Inl ValueError)"
    by (intro exI [of _ bad_stdout] conjI)
qed

text \<open>The line whose seventh token is \<open>n/a\<close>.\<close>

theorem unguarded_float_conversion_witness:
  "parse_pidstat_output bad_stdout = [row_bad] \<and>
   map_of row_bad (ascii ''cpu_pct'') = Some (ascii ''n/a'') \<and>
   py_float (ascii ''n/a'') = Inl ValueError \<and>
   (\<forall>float_repr.
      build_html float_repr (parse_pidstat_output bad_stdout) bad_stdout None 1 5
        (ascii ''report'') = Inl ValueError \<and>
      main (runtime_printing bad_stdout float_repr) sample_args empty_world =
        (Inl ValueError, empty_world))"
proof -
  have c: "map_of row_bad (ascii ''cpu_pct'') = Some (ascii ''n/a'')"
    and m: "map_of row_bad (ascii ''mem_pct'') = Some (ascii ''0.50'')"
    by (simp_all add: row_bad_def TABLE_COLUMNS_def ascii_def)
  have f: "py_float (ascii ''n/a'') = Inl ValueError"
    by (simp add: float_eval)
  have h: "[row_bad] = parse_pidstat_output bad_stdout \<and> row_bad \<in> set [row_bad] \<and>
    map_of row_bad (ascii ''cpu_pct'') = Some (ascii ''n/a'') \<and>
    map_of row_bad (ascii ''mem_pct'') = Some (ascii ''0.50'') \<and>
    (py_float (ascii ''n/a'') = Inl ValueError \<or> py_float (ascii ''0.50'') = Inl ValueError)"
    by (simp add: parse_bad c m f)
  have "build_html float_repr [row_bad] bad_stdout None 1 5 (ascii ''report'') = Inl ValueError \<and>
      main (runtime_printing bad_stdout float_repr) sample_args empty_world =
        (Inl ValueError, empty_world)"
    for float_repr
    by (rule unguarded_float_conversion [THEN conjunct1, THEN mp, OF h])
  then show ?thesis
    by (simp add: parse_bad c f)
qed







section \<open>The order of the records of a timestamp\<close>

text \<open>
  Two floats are added to \<open>0.0\<close> with the same result in either order; so a list of at
  most two floats has the same sum as each of its permutations.
\<close>

lemma float_sum_perm_small:
  assumes "mset ys = mset xs" "length xs \<le> 2" "\<forall>x\<in>set xs. valid_float x"
  shows "float_sum ys = float_sum xs"
proof -
  have len: "length ys = length xs"
    using assms(1) by (rule mset_eq_length)
  consider "xs = []" | a where "xs = [a]" | a b where "xs = [a, b]"
    using assms(2) by (cases xs; cases "tl xs"; cases "tl (tl xs)") auto
  then show ?thesis
  proof cases
    case 1
    with len show ?thesis by simp
  next
    case 2
    with len obtain c where "ys = [c]" by (cases ys) auto
    with assms(1) 2 show ?thesis by simp
  next
    case 3
    with len obtain c d where ys: "ys = [c, d]"
      by (cases ys; cases "tl ys") auto
    with assms(1) 3 have "c = a \<and> d = b \<or> c = b \<and> d = a"
      by (auto simp: add_eq_conv_ex)
    moreover have "fadd (fadd zero_float b) a = fadd (fadd zero_float a) b"
      using assms(3) 3 by (intro fadd_pair_commute) simp_all
    ultimately show ?thesis
      by (auto simp: float_sum_def ys 3)
  qed
qed

lemma sums_at_perm:
  assumes "mset ss' = mset ss" "length (filter (\<lambda>s. fst s = t) ss) \<le> 2"
    "\<forall>s\<in>set ss. valid_float (fst (snd s)) \<and> valid_float (snd (snd s))"
  shows "float_sum (cpu_at ss' t) = float_sum (cpu_at ss t)"
    "float_sum (mem_at ss' t) = float_sum (mem_at ss t)"
proof -
  have "mset (cpu_at ss' t) = mset (cpu_at ss t)"
    by (simp add: cpu_at_def assms(1))
  moreover have "length (cpu_at ss t) \<le> 2"
    using assms(2) by (simp add: cpu_at_def)
  moreover have "\<forall>x\<in>set (cpu_at ss t). valid_float x"
    using assms(3) by (auto simp: cpu_at_def)
  ultimately show "float_sum (cpu_at ss' t) = float_sum (cpu_at ss t)"
    by (rule float_sum_perm_small)
  have "mset (mem_at ss' t) = mset (mem_at ss t)"
    by (simp add: mem_at_def assms(1))
  moreover have "length (mem_at ss t) \<le> 2"
    using assms(2) by (simp add: mem_at_def)
  moreover have "\<forall>x\<in>set (mem_at ss t). valid_float x"
    using assms(3) by (auto simp: mem_at_def)
  ultimately show "float_sum (mem_at ss' t) = float_sum (mem_at ss t)"
    by (rule float_sum_perm_small)
qed

lemma read_row_sample:
  assumes "read_row r = Inr s"
  shows "map_of r (ascii ''time'') = Some (fst s)" "valid_float (fst (snd s))"
    "valid_float (snd (snd s))"
  using assms py_float_valid
  by (auto simp: read_row_def getitem_def split: option.splits sum.splits)

lemma map_of_zip_map_same:
  "map_of (zip xs (map f xs)) t = (if t \<in> set xs then Some (f t) else None)"
  by (induction xs) auto

lemma samples_of_rows:
  assumes "map read_row rows = map Inr ss"
  shows "ss = map (\<lambda>r. projr (read_row r)) rows"
  using arg_cong [OF assms, of "map projr"] by (simp add: comp_def)

text \<open>
  Claim C8, for at most two records at a timestamp.  When the record list is permuted in
  any way, the aggregator succeeds as before and has the same timestamps; and at every
  timestamp that at most two records share, the summed CPU% and the summed memory% are
  the same as before the permutation.
\<close>

theorem sums_order_independent_up_to_two:
  assumes agg: "aggregate rows = Inr ch" and perm: "mset rows' = mset rows"
  shows "\<exists>ch'. aggregate rows' = Inr ch' \<and> set (labels ch') = set (labels ch) \<and>
     (\<forall>t. length (filter (\<lambda>r. map_of r (ascii ''time'') = Some t) rows) \<le> 2 \<longrightarrow>
        map_of (zip (labels ch') (cpu ch')) t = map_of (zip (labels ch) (cpu ch)) t \<and>
        map_of (zip (labels ch') (mem ch')) t = map_of (zip (labels ch) (mem ch)) t)"
proof -
  let ?g = "\<lambda>r. projr (read_row r)"
  from aggregate_Inr [OF agg] obtain ss where
    rr: "map read_row rows = map Inr ss" and ch: "ch = chart_of ss"
    by blast
  have ss: "ss = map ?g rows"
    using rr by (rule samples_of_rows)
  have readable: "\<exists>s. read_row r = Inr s" if "r \<in> set rows" for r
  proof -
    from that have "read_row r \<in> set (map read_row rows)" by simp
    then have "read_row r \<in> set (map Inr ss)" by (simp only: rr)
    then show ?thesis by auto
  qed
  have g: "read_row r = Inr (?g r)" if "r \<in> set rows" for r
    using readable [OF that] by auto
  have sets: "set rows' = set rows"
    using perm by (rule mset_eq_setD)
  then have "\<forall>r\<in>set rows'. \<exists>s. read_row r = Inr s"
    using readable by blast
  then obtain ss' where rr': "map read_row rows' = map Inr ss'"
    using readable_rows by blast
  have ss': "ss' = map ?g rows'"
    using rr' by (rule samples_of_rows)
  have agg': "aggregate rows' = Inr (chart_of ss')"
    using rr' by (rule aggregate_samples)
  have m: "mset ss' = mset ss"
    by (simp add: ss ss' perm)
  then have "set ss' = set ss"
    by (rule mset_eq_setD)
  then have lab: "set (labels (chart_of ss')) = set (labels (chart_of ss))"
    by (simp add: chart_of_def)
  have valid: "\<forall>s\<in>set ss. valid_float (fst (snd s)) \<and> valid_float (snd (snd s))"
  proof
    fix s assume "s \<in> set ss"
    then obtain r where "r \<in> set rows" "s = ?g r" by (auto simp: ss)
    with g have "read_row r = Inr s" by simp
    then show "valid_float (fst (snd s)) \<and> valid_float (snd (snd s))"
      using read_row_sample(2,3) by blast
  qed
  have group: "filter (\<lambda>s. fst s = t) ss = map ?g (filter (\<lambda>r. map_of r (ascii ''time'') = Some t) rows)"
    for t
  proof -
    have "filter (\<lambda>r. fst (?g r) = t) rows = filter (\<lambda>r. map_of r (ascii ''time'') = Some t) rows"
    proof (rule filter_cong [OF refl])
      fix r assume "r \<in> set rows"
      from read_row_sample(1) [OF g [OF this]]
      show "(fst (?g r) = t) = (map_of r (ascii ''time'') = Some t)" by auto
    qed
    then show ?thesis
      by (simp add: ss filter_map comp_def)
  qed
  have at: "map_of (zip (labels (chart_of ss')) (cpu (chart_of ss'))) t =
        map_of (zip (labels (chart_of ss)) (cpu (chart_of ss))) t \<and>
      map_of (zip (labels (chart_of ss')) (mem (chart_of ss'))) t =
        map_of (zip (labels (chart_of ss)) (mem (chart_of ss))) t"
    if "length (filter (\<lambda>r. map_of r (ascii ''time'') = Some t) rows) \<le> 2" for t
  proof -
    from that have "length (filter (\<lambda>s. fst s = t) ss) \<le> 2"
      by (simp add: group)
    from sums_at_perm [OF m this valid] lab show ?thesis
      by (simp add: chart_of_def map_of_zip_map_same)
  qed
  from agg' lab at show ?thesis
    unfolding ch by (intro exI [of _ "chart_of ss'"]) blast
qed

text \<open>The two processes of the sample report, in the other order.\<close>

theorem sums_order_independent_up_to_two_witness:
  "\<exists>ch'. aggregate [row_4243, row_4242] = Inr ch' \<and> set (labels ch') = {ascii ''10:00:01''} \<and>
     map_of (zip (labels ch') (cpu ch')) (ascii ''10:00:01'') =
       Some (Finite False 8444249301319680 (- 48)) \<and>
     map_of (zip (labels ch') (mem ch')) (ascii ''10:00:01'') =
       Some (Finite False 7881299347898368 (- 52))"
proof -
  have p: "mset [row_4243, row_4242] = mset [row_4242, row_4243]"
    by (simp add: add_mset_commute)
  have t: "map_of row_4242 (ascii ''time'') = Some (ascii ''10:00:01'')"
    "map_of row_4243 (ascii ''time'') = Some (ascii ''10:00:01'')"
    by (simp_all add: row_4242_def row_4243_def TABLE_COLUMNS_def ascii_def)
  have two: "length (filter (\<lambda>r. map_of r (ascii ''time'') = Some (ascii ''10:00:01''))
      [row_4242, row_4243]) \<le> 2"
    by simp
  from sums_order_independent_up_to_two [OF aggregate_two_pid p] obtain ch' where
    a: "aggregate [row_4243, row_4242] = Inr ch'"
    and l: "set (labels ch') = set (labels \<lparr>labels = [ascii ''10:00:01''],
          cpu = [Finite False 8444249301319680 (- 48)],
          mem = [Finite False 7881299347898368 (- 52)]\<rparr>)"
    and s: "\<forall>t. length (filter (\<lambda>r. map_of r (ascii ''time'') = Some t) [row_4242, row_4243]) \<le> 2 \<longrightarrow>
        map_of (zip (labels ch') (cpu ch')) t =
          map_of (zip (labels \<lparr>labels = [ascii ''10:00:01''],
          cpu = [Finite False 8444249301319680 (- 48)],
          mem = [Finite False 7881299347898368 (- 52)]\<rparr>) (cpu \<lparr>labels = [ascii ''10:00:01''],
          cpu = [Finite False 8444249301319680 (- 48)],
          mem = [Finite False 7881299347898368 (- 52)]\<rparr>)) t \<and>
        map_of (zip (labels ch') (mem ch')) t =
          map_of (zip (labels \<lparr>labels = [ascii ''10:00:01''],
          cpu = [Finite False 8444249301319680 (- 48)],
          mem = [Finite False 7881299347898368 (- 52)]\<rparr>) (mem \<lparr>labels = [ascii ''10:00:01''],
          cpu = [Finite False 8444249301319680 (- 48)],
          mem = [Finite False 7881299347898368 (- 52)]\<rparr>)) t"
    by (elim exE conjE)
  from s [rule_format, OF two] l a show ?thesis
    by (intro exI [of _ ch']) simp
qed


text \<open>
  Claim C8 as stated, for any number of records.  With the CPU values 0.10, 0.20 and
  0.30 at one timestamp the sum is \<open>0.6000000000000001\<close> in this order and \<open>0.6\<close> in the
  opposite one: a sum of floats depends on the order of its terms.
\<close>

theorem sums_depend_on_order:
  "mset (parse_pidstat_output drift_stdout_rev) = mset (parse_pidstat_output drift_stdout) \<and>
   aggregate (parse_pidstat_output drift_stdout) =
     Inr \<lparr>labels = [ascii ''10:00:01''], cpu = [Finite False 5404319552844596 (- 53)],
          mem = [zero_float]\<rparr> \<and>
   aggregate (parse_pidstat_output drift_stdout_rev) =
     Inr \<lparr>labels = [ascii ''10:00:01''], cpu = [Finite False 5404319552844595 (- 53)],
          mem = [zero_float]\<rparr> \<and>
   aggregate (parse_pidstat_output drift_stdout_rev) \<noteq>
     aggregate (parse_pidstat_output drift_stdout)"
proof -
  let ?t = "ascii ''10:00:01''" and ?z = "zero_float"
  let ?a = "Finite False 7205759403792794 (- 56)" and ?b = "Finite False 7205759403792794 (- 55)"
  let ?c = "Finite False 5404319552844595 (- 54)"
  have "map read_row [row_a, row_b, row_c] = map Inr [(?t, ?a, ?z), (?t, ?b, ?z), (?t, ?c, ?z)]"
    by (simp add: read_row_drift)
  then have "aggregate [row_a, row_b, row_c] = Inr (chart_of [(?t, ?a, ?z), (?t, ?b, ?z), (?t, ?c, ?z)])"
    by (rule aggregate_samples)
  then have 1: "aggregate [row_a, row_b, row_c] =
      Inr \<lparr>labels = [?t], cpu = [Finite False 5404319552844596 (- 53)], mem = [?z]\<rparr>"
    by (simp add: chart_of_def cpu_at_def mem_at_def float_sum_def drift_zero drift_sums
        fadd_zero_zero)
  have "map read_row [row_c, row_b, row_a] = map Inr [(?t, ?c, ?z), (?t, ?b, ?z), (?t, ?a, ?z)]"
    by (simp add: read_row_drift)
  then have "aggregate [row_c, row_b, row_a] = Inr (chart_of [(?t, ?c, ?z), (?t, ?b, ?z), (?t, ?a, ?z)])"
    by (rule aggregate_samples)
  then have 2: "aggregate [row_c, row_b, row_a] =
      Inr \<lparr>labels = [?t], cpu = [Finite False 5404319552844595 (- 53)], mem = [?z]\<rparr>"
    by (simp add: chart_of_def cpu_at_def mem_at_def float_sum_def drift_zero drift_sums
        fadd_zero_zero)
  have p: "mset [row_c, row_b, row_a] = mset [row_a, row_b, row_c]"
    by (simp add: add_mset_commute)
  from 1 2 have 3: "aggregate [row_c, row_b, row_a] \<noteq> aggregate [row_a, row_b, row_c]"
    by simp
  from p 1 2 3 show ?thesis
    unfolding parse_drift by (intro conjI)
qed

end
